theory Spec2Isabelle
  imports Complex_Main "HOL-Library.Log_Nat"
begin

section \<open>Numbers\<close>

text \<open>
  The program computes on JavaScript numbers. They are modelled as the real numbers they
  denote. In \<open>quantizeValue\<close>, \<open>formatBinary\<close>, the canvas and the table \<open>+\<close>, \<open>-\<close>, \<open>*\<close>
  and \<open>/\<close> are exact; \<open>quantizeValue_double\<close> is the quantizer once more with every
  arithmetic result rounded to double precision, for the property that depends on it. Integer-valued quantities the code only ever produces with
  \<open>Math.floor\<close> or \<open>Math.round\<close> are integers. The bit depth comes from a slider with
  \<open>min = 1\<close>, \<open>step = 1\<close> and is a natural number.

  A division by zero gives \<open>Infinity\<close> or \<open>NaN\<close> in the program and 0 in HOL. The program
  divides by \<open>2 ^ bitDepth - 1\<close>, by the zoom, by the target sample rate and by the native
  sample rate; the controls keep the first three at 1, 1 and 100 or more. The theorems
  that depend on such a quotient assume the divisor positive.
\<close>

definition Math_round :: "real \<Rightarrow> int" where
  \<comment> \<open>\<open>Math.round\<close>: the nearest integer, a tie goes to the larger one.\<close>
  "Math_round x = \<lfloor>x + 1 / 2\<rfloor>"

definition Math_pow2 :: "nat \<Rightarrow> real" where
  \<comment> \<open>\<open>Math.pow(2, bitDepth)\<close>\<close>
  "Math_pow2 bitDepth = 2 ^ bitDepth"

section \<open>audioUtils\<close>

definition quantizeValue :: "real \<Rightarrow> nat \<Rightarrow> real" where
  "quantizeValue v bitDepth =
     (if bitDepth \<ge> 32 then v
      else
        let levels = Math_pow2 bitDepth;
            maxVal = levels - 1;
            normalized = (v + 1) / 2;
            normalized = max 0 (min 1 normalized);
            discrete = Math_round (normalized * maxVal);
            quantizedNorm = real_of_int discrete / maxVal
        in (quantizedNorm * 2) - 1)"

definition getQuantizationError :: "real \<Rightarrow> real \<Rightarrow> real" where
  "getQuantizationError original quantized = \<bar>original - quantized\<bar>"


text \<open>
  \<open>Number.prototype.toString(2)\<close> on an integer: the binary digits, most significant
  first, after a minus sign for a negative number; \<open>String.prototype.padStart\<close> puts the
  fill character in front until the target length is reached and leaves a string that is
  long enough as it is.
\<close>

definition binaryDigit :: "nat \<Rightarrow> char" where
  "binaryDigit d = (if d = 0 then CHR ''0'' else CHR ''1'')"

fun natToString2 :: "nat \<Rightarrow> string" where
  "natToString2 n = (if n < 2 then [binaryDigit n] else natToString2 (n div 2) @ [binaryDigit (n mod 2)])"

declare natToString2.simps [simp del]

definition toString2 :: "int \<Rightarrow> string" where
  "toString2 i = (if i < 0 then CHR ''-'' # natToString2 (nat (- i)) else natToString2 (nat i))"

definition padStart :: "string \<Rightarrow> nat \<Rightarrow> char \<Rightarrow> string" where
  "padStart s targetLength c = replicate (targetLength - length s) c @ s"

definition formatBinary :: "real \<Rightarrow> nat \<Rightarrow> string" where
  "formatBinary v bitDepth =
     (let levels = Math_pow2 bitDepth;
          maxVal = levels - 1;
          normalized = (v + 1) / 2;
          normalized = max 0 (min 1 normalized);
          discrete = Math_round (normalized * maxVal)
      in padStart (toString2 discrete) bitDepth (CHR ''0''))"

section \<open>The shared pipeline of \<open>quantizeValue\<close> and \<open>formatBinary\<close>\<close>

text \<open>
  Both functions start with the same four statements (normalize, clamp, scale, round).
  The two definitions below name that prefix, for the proofs; \<open>quantizeValue_code\<close> and
  \<open>formatBinary_code\<close> show that the functions above compute through it.
\<close>

definition normalize_clamp :: "real \<Rightarrow> real" where
  "normalize_clamp v = max 0 (min 1 ((v + 1) / 2))"

definition discrete_code :: "real \<Rightarrow> nat \<Rightarrow> int" where
  "discrete_code v bitDepth = Math_round (normalize_clamp v * (Math_pow2 bitDepth - 1))"

section \<open>Quantization levels\<close>

text \<open>
  The levels the specification speaks of: \<open>2 ^ bitDepth\<close> values, \<open>2 / (2 ^ bitDepth - 1)\<close>
  apart, the first of them \<open>-1\<close>. They are the yardstick for the quantizer, not part of
  the program.
\<close>

definition quantizationLevel :: "nat \<Rightarrow> nat \<Rightarrow> real" where
  "quantizationLevel bitDepth k = real k * (2 / (2 ^ bitDepth - 1)) - 1"

definition quantizationLevels :: "nat \<Rightarrow> real set" where
  "quantizationLevels bitDepth = quantizationLevel bitDepth ` {k. k < 2 ^ bitDepth}"

text \<open>
  Reading a binary code back, as the round trip of the specification does: the digits as
  an unsigned binary number, then \<open>code / (2 ^ bitDepth - 1)\<close> mapped from \<open>[0, 1]\<close> to
  \<open>[-1, 1]\<close>.
\<close>

definition decodeBinary :: "string \<Rightarrow> nat" where
  "decodeBinary s = foldl (\<lambda>acc c. 2 * acc + (if c = CHR ''1'' then 1 else 0)) 0 s"

definition rescaleCode :: "nat \<Rightarrow> nat \<Rightarrow> real" where
  "rescaleCode code bitDepth = real code / (2 ^ bitDepth - 1) * 2 - 1"

section \<open>Double precision\<close>

text \<open>
  A JavaScript number is an IEEE-754 double: a sign, 53 significant bits and a binary
  exponent. \<open>toDouble x\<close> is the double nearest to the real \<open>x\<close>, a tie going to the even
  significand, as every arithmetic operation of the program rounds its exact result.
  For \<open>x > 0\<close>, \<open>binade x\<close> is the exponent \<open>e\<close> with \<open>2 ^ e \<le> x < 2 ^ (e + 1)\<close>; the spacing
  of the doubles there is \<open>2 ^ (e - 52)\<close>. The exponent is not bounded here: overflow, subnormal numbers
  and \<open>NaN\<close> are left out. They do not occur in the quantizer for an amplitude that is a
  double in \<open>[-1, 1]\<close> and a bit depth below 32, where every computed value is 0 or
  between \<open>2 ^ - 54\<close> and \<open>2 ^ 32\<close> in size.
\<close>

definition pow2 :: "int \<Rightarrow> real" where
  "pow2 e = (if 0 \<le> e then 2 ^ nat e else 1 / 2 ^ nat (- e))"

definition binade :: "real \<Rightarrow> int" where
  "binade x = (if 1 \<le> x then bitlen \<lfloor>x\<rfloor> - 1 else - bitlen (\<lceil>1 / x\<rceil> - 1))"

definition roundTiesToEven :: "real \<Rightarrow> int" where
  "roundTiesToEven y =
     (let f = \<lfloor>y\<rfloor>; d = y - real_of_int f
      in if d < 1 / 2 then f else if 1 / 2 < d then f + 1 else if even f then f else f + 1)"

definition toDouble :: "real \<Rightarrow> real" where
  "toDouble x =
     (if x = 0 then 0
      else let ulp = pow2 (binade \<bar>x\<bar> - 52)
           in real_of_int (roundTiesToEven (x / ulp)) * ulp)"

text \<open>
  \<open>quantizeValue\<close> with the rounding of each operation written out. \<open>Math.pow(2, bitDepth)\<close>
  is a power of two and exact; \<open>Math.max\<close> and \<open>Math.min\<close> select one of their arguments;
  \<open>Math.round\<close> gives the integer nearest to the double it is applied to.
\<close>

definition quantizeValue_double :: "real \<Rightarrow> nat \<Rightarrow> real" where
  "quantizeValue_double v bitDepth =
     (if bitDepth \<ge> 32 then v
      else
        let levels = Math_pow2 bitDepth;
            maxVal = toDouble (levels - 1);
            normalized = toDouble (toDouble (v + 1) / 2);
            normalized = max 0 (min 1 normalized);
            discrete = Math_round (toDouble (normalized * maxVal));
            quantizedNorm = toDouble (real_of_int discrete / maxVal)
        in toDouble (toDouble (quantizedNorm * 2) - 1))"

text \<open>
  For the proofs: the unit roundoff, the integer code of \<open>quantizeValue_double\<close>, and the
  values it can return: the level \<open>k\<close> of the specification as the program computes it.
\<close>

definition unitRoundoff :: real where
  "unitRoundoff = 1 / 2 ^ 53"

definition discrete_double :: "real \<Rightarrow> nat \<Rightarrow> int" where
  "discrete_double v bitDepth =
     Math_round (toDouble (max 0 (min 1 (toDouble (toDouble (v + 1) / 2))) * (2 ^ bitDepth - 1)))"

definition doubleLevel :: "nat \<Rightarrow> nat \<Rightarrow> real" where
  "doubleLevel bitDepth k = toDouble (toDouble (toDouble (real k / (2 ^ bitDepth - 1)) * 2) - 1)"

definition doubleLevels :: "nat \<Rightarrow> real set" where
  "doubleLevels bitDepth = doubleLevel bitDepth ` {k. k < 2 ^ bitDepth}"

section \<open>WaveformCanvas\<close>

text \<open>
  The decoded audio, as far as the program reads it: the samples of channel 0 and the
  native sample rate.
\<close>

record AudioBuffer =
  channelData0 :: "real list"
  sampleRate :: real

record WaveformCanvasProps =
  audioBuffer :: "AudioBuffer option"
  sampleRateCtx :: real
  bitDepth :: nat
  zoom :: real
  showAnalog :: bool
  showSampling :: bool
  showQuantization :: bool
  showError :: bool
  width :: real
  height :: real

text \<open>
  What the effect draws, in drawing order. Each constructor stands for one group of canvas
  calls and carries the coordinates the code computes for it:
  \<^item> \<open>GridLine y\<close>: \<open>moveTo(0, y); lineTo(width, y)\<close> of the quantization grid;
  \<^item> \<open>ZeroLine y\<close>: the zero line;
  \<^item> \<open>AnalogPoint x y\<close>: one \<open>moveTo\<close>/\<open>lineTo\<close> of the green curve;
  \<^item> \<open>SampleStick x y\<close>: the blue stick from \<open>(x, height / 2)\<close> to \<open>(x, y)\<close> and its dot;
  \<^item> \<open>HoldStep x nextX y\<close>: the amber hold line from \<open>(x, y)\<close> to \<open>(nextX, y)\<close>;
  \<^item> \<open>ErrorSegment x originalY y\<close>: the red line from \<open>(x, originalY)\<close> to \<open>(x, y)\<close>.
\<close>

datatype draw =
    Background
  | PlaceholderText real real
  | GridLine real
  | ZeroLine real
  | AnalogPoint real real
  | SampleStick real real
  | HoldStep real real real
  | ErrorSegment real real real

definition windowSize :: "nat \<Rightarrow> real \<Rightarrow> int" where
  \<comment> \<open>\<open>Math.floor(data.length / zoom)\<close>\<close>
  "windowSize dataLength zoomLevel = \<lfloor>real dataLength / zoomLevel\<rfloor>"

definition ampToY :: "real \<Rightarrow> real \<Rightarrow> real" where
  "ampToY h amp = h / 2 - (amp * h / 2)"

definition drawStep :: "int \<Rightarrow> int" where
  \<comment> \<open>\<open>Math.max(1, Math.floor(windowSize / 2000))\<close>\<close>
  "drawStep w = max 1 \<lfloor>real_of_int w / 2000\<rfloor>"

definition skip :: "real \<Rightarrow> real \<Rightarrow> real" where
  \<comment> \<open>\<open>Math.max(1, realRate / sampleRateCtx)\<close>\<close>
  "skip realRate rateCtx = max 1 (realRate / rateCtx)"

definition gridLines :: "WaveformCanvasProps \<Rightarrow> draw list" where
  "gridLines p =
     (if showQuantization p \<and> bitDepth p \<le> 5 then
        let levels = Math_pow2 (bitDepth p)
        in map (\<lambda>i. GridLine (height p - (real i / levels) * height p)) [0 ..< Suc (2 ^ bitDepth p)]
      else [])"

text \<open>
  The loop of the analog curve: \<open>i\<close> runs from 0 in steps of \<open>drawStep\<close> while
  \<open>i < windowSize\<close>, \<open>x\<close> is accumulated; the loop breaks at the end of the data.
\<close>

function analogLoop :: "real list \<Rightarrow> real \<Rightarrow> real \<Rightarrow> int \<Rightarrow> int \<Rightarrow> real \<Rightarrow> draw list" where
  "analogLoop data h sliceWidth w i x =
     (if i < w then
        let idx = i in
        if idx \<ge> int (length data) then []
        else
          let v = data ! nat idx;
              y = ampToY h v
          in AnalogPoint x y
             # analogLoop data h sliceWidth w (i + drawStep w) (x + sliceWidth * real_of_int (drawStep w))
      else [])"
  by pat_completeness auto
termination
  by (relation "measure (\<lambda>(data, h, sliceWidth, w, i, x). nat (w - i))")
     (auto simp: drawStep_def)

declare analogLoop.simps [simp del]

text \<open>
  One pass of the sampling loop: the loop variable and the values the body computes from
  it before it draws.
\<close>

record SamplePoint =
  pt_i :: real
  pt_idx :: nat
  pt_originalVal :: real
  pt_finalVal :: real
  pt_x :: real
  pt_y :: real

function samplingLoop ::
  "WaveformCanvasProps \<Rightarrow> real list \<Rightarrow> real \<Rightarrow> int \<Rightarrow> real \<Rightarrow> real \<Rightarrow> SamplePoint list" where
  "samplingLoop p data realRate w sliceWidth i =
     (if i < real_of_int w then
        let idx = \<lfloor>i\<rfloor> in
        if idx \<ge> int (length data) then []
        else
          let originalVal = data ! nat idx;
              finalVal = (if showQuantization p then quantizeValue originalVal (bitDepth p)
                          else originalVal);
              x = i * sliceWidth;
              y = ampToY (height p) finalVal
          in \<lparr>pt_i = i, pt_idx = nat idx, pt_originalVal = originalVal,
              pt_finalVal = finalVal, pt_x = x, pt_y = y\<rparr>
             # samplingLoop p data realRate w sliceWidth (i + skip realRate (sampleRateCtx p))
      else [])"
  by pat_completeness auto
termination
proof (relation "measure (\<lambda>(p, data, realRate, w, sliceWidth, i). nat \<lceil>real_of_int w - i\<rceil>)")
  show "wf (measure (\<lambda>(p, data, realRate, w, sliceWidth, i). nat \<lceil>real_of_int w - i\<rceil>))"
    by simp
next
  fix p :: WaveformCanvasProps and data :: "real list" and realRate :: real and w :: int
    and sliceWidth i :: real and idx :: int
  assume lt: "i < real_of_int w"
  have s: "1 \<le> skip realRate (sampleRateCtx p)" by (simp add: skip_def)
  have "\<lceil>real_of_int w - (i + skip realRate (sampleRateCtx p))\<rceil> \<le> \<lceil>real_of_int w - i - 1\<rceil>"
    using s by (intro ceiling_mono) simp
  also have "\<dots> = \<lceil>real_of_int w - i\<rceil> - 1" by simp
  finally have "\<lceil>real_of_int w - (i + skip realRate (sampleRateCtx p))\<rceil> < \<lceil>real_of_int w - i\<rceil>"
    by simp
  moreover have "0 < \<lceil>real_of_int w - i\<rceil>" using lt by simp
  ultimately show "((p, data, realRate, w, sliceWidth, i + skip realRate (sampleRateCtx p)),
                   (p, data, realRate, w, sliceWidth, i))
                  \<in> measure (\<lambda>(p, data, realRate, w, sliceWidth, i). nat \<lceil>real_of_int w - i\<rceil>)"
    by simp
qed

declare samplingLoop.simps [simp del]

definition drawSample :: "WaveformCanvasProps \<Rightarrow> real \<Rightarrow> real \<Rightarrow> SamplePoint \<Rightarrow> draw list" where
  "drawSample p realRate sliceWidth pt =
     (if showSampling p then [SampleStick (pt_x pt) (pt_y pt)] else [])
     @ (if showQuantization p then
          let nextI = pt_i pt + skip realRate (sampleRateCtx p);
              nextX = min (width p) (nextI * sliceWidth)
          in [HoldStep (pt_x pt) nextX (pt_y pt)]
        else [])
     @ (if showError p then
          let originalY = ampToY (height p) (pt_originalVal pt)
          in [ErrorSegment (pt_x pt) originalY (pt_y pt)]
        else [])"

definition render :: "WaveformCanvasProps \<Rightarrow> draw list" where
  "render p =
     Background #
     (case audioBuffer p of
        None \<Rightarrow> [PlaceholderText (width p / 2) (height p / 2)]
      | Some buf \<Rightarrow>
          let data = channelData0 buf;
              w = windowSize (length data) (zoom p)
          in gridLines p
             @ [ZeroLine (height p / 2)]
             @ (if showAnalog p then
                  let sliceWidth = width p * 1 / real_of_int w
                  in analogLoop data (height p) sliceWidth w 0 0
                else [])
             @ (let realRate = sampleRate buf in
                if showSampling p \<or> showQuantization p then
                  let sliceWidth = width p * 1 / real_of_int w
                  in concat (map (drawSample p realRate sliceWidth)
                               (samplingLoop p data realRate w sliceWidth 0))
                else []))"

text \<open>
  The passes of the sampling loop as \<open>render\<close> runs it, from \<open>i = 0\<close>: the points of the
  sampling layer before they are drawn.
\<close>

definition samplingPoints :: "WaveformCanvasProps \<Rightarrow> AudioBuffer \<Rightarrow> SamplePoint list" where
  "samplingPoints p buf =
     (let data = channelData0 buf;
          w = windowSize (length data) (zoom p);
          sliceWidth = width p * 1 / real_of_int w
      in samplingLoop p data (sampleRate buf) w sliceWidth 0)"

text \<open>The points of each layer, read off what was drawn.\<close>

fun analogOf :: "draw \<Rightarrow> (real \<times> real) list" where
  "analogOf (AnalogPoint x y) = [(x, y)]"
| "analogOf _ = []"

fun stickOf :: "draw \<Rightarrow> (real \<times> real) list" where
  "stickOf (SampleStick x y) = [(x, y)]"
| "stickOf _ = []"

fun holdOf :: "draw \<Rightarrow> (real \<times> real \<times> real) list" where
  "holdOf (HoldStep x nextX y) = [(x, nextX, y)]"
| "holdOf _ = []"

fun errorOf :: "draw \<Rightarrow> (real \<times> real \<times> real) list" where
  "errorOf (ErrorSegment x originalY y) = [(x, originalY, y)]"
| "errorOf _ = []"

fun gridOf :: "draw \<Rightarrow> real list" where
  "gridOf (GridLine y) = [y]"
| "gridOf _ = []"

definition analogLayer :: "draw list \<Rightarrow> (real \<times> real) list" where
  "analogLayer ds = concat (map analogOf ds)"

definition samplingLayer :: "draw list \<Rightarrow> (real \<times> real) list" where
  "samplingLayer ds = concat (map stickOf ds)"

definition holdLayer :: "draw list \<Rightarrow> (real \<times> real \<times> real) list" where
  "holdLayer ds = concat (map holdOf ds)"

definition errorLayer :: "draw list \<Rightarrow> (real \<times> real \<times> real) list" where
  "errorLayer ds = concat (map errorOf ds)"

definition gridLayer :: "draw list \<Rightarrow> real list" where
  "gridLayer ds = concat (map gridOf ds)"

section \<open>App: the preview table\<close>

record TableRow =
  row_i :: nat
  row_idx :: int
  row_time :: real
  row_val :: real
  row_quantized :: real
  row_binary :: string

definition tableSkip :: "real \<Rightarrow> real \<Rightarrow> int" where
  \<comment> \<open>\<open>Math.max(1, Math.floor(realRate / sampleRateCtx))\<close>\<close>
  "tableSkip realRate rateCtx = max 1 \<lfloor>realRate / rateCtx\<rfloor>"

text \<open>
  One row of the table; \<open>None\<close> where the code returns \<open>null\<close>. The cells are kept as the
  numbers the code computes, before \<open>toFixed\<close> formats them.
\<close>

definition tableRow :: "AudioBuffer \<Rightarrow> real \<Rightarrow> nat \<Rightarrow> nat \<Rightarrow> TableRow option" where
  "tableRow buf rateCtx depth i =
     (let data = channelData0 buf;
          realRate = sampleRate buf;
          skp = tableSkip realRate rateCtx;
          idx = int i * skp
      in if idx \<ge> int (length data) then None
         else
           let val = data ! nat idx;
               quantized = quantizeValue val depth;
               levels = Math_pow2 depth;
               normalized = (quantized + 1) / 2;
               integerVal = Math_round (normalized * (levels - 1))
           in Some \<lparr>row_i = i, row_idx = idx, row_time = real_of_int idx / realRate,
                     row_val = val, row_quantized = quantized,
                     row_binary = padStart (toString2 integerVal) depth (CHR ''0'')\<rparr>)"

definition previewTable :: "AudioBuffer option \<Rightarrow> real \<Rightarrow> nat \<Rightarrow> TableRow option list" where
  \<comment> \<open>\<open>Array.from({ length: 20 }).map((_, i) => ...)\<close>, when a buffer is loaded\<close>
  "previewTable ab rateCtx depth =
     (case ab of None \<Rightarrow> [] | Some buf \<Rightarrow> map (tableRow buf rateCtx depth) [0 ..< 20])"

section \<open>Example inputs\<close>

text \<open>
  Eighteen samples at 44100 Hz, shown whole (zoom 1) with the controls as the application
  starts them (5000 Hz, 4 bits); and a single sample of amplitude \<open>1 / 2\<close> at 1 bit with
  all four layers on.
\<close>

definition defaultRunBuffer :: AudioBuffer where
  "defaultRunBuffer =
     \<lparr>channelData0 = [0, 0, 0, 0, 0, 0, 0, 0, 1 / 4, 0, 0, 0, 0, 0, 0, 0, - 1 / 2, 1 / 2],
      sampleRate = 44100\<rparr>"

definition defaultRunProps :: WaveformCanvasProps where
  "defaultRunProps =
     \<lparr>audioBuffer = Some defaultRunBuffer,
      sampleRateCtx = 5000, bitDepth = 4, zoom = 1,
      showAnalog = True, showSampling = True, showQuantization = True, showError = False,
      width = 800, height = 400\<rparr>"

definition oneSampleProps :: WaveformCanvasProps where
  "oneSampleProps =
     \<lparr>audioBuffer = Some \<lparr>channelData0 = [1 / 2], sampleRate = 44100\<rparr>,
      sampleRateCtx = 5000, bitDepth = 1, zoom = 1,
      showAnalog = True, showSampling = True, showQuantization = True, showError = True,
      width = 800, height = 400\<rparr>"

section \<open>Properties of the quantizer\<close>

lemma maxVal_ge1: "1 \<le> b \<Longrightarrow> 1 \<le> Math_pow2 b - 1"
proof -
  assume "1 \<le> b"
  then have "(2::real) ^ 1 \<le> 2 ^ b" by (intro power_increasing) simp_all
  then show ?thesis by (simp add: Math_pow2_def)
qed

lemma normalize_clamp_range: "0 \<le> normalize_clamp v \<and> normalize_clamp v \<le> 1"
  by (simp add: normalize_clamp_def)

lemma Math_pow2_int: "Math_pow2 b - 1 = real_of_int (2 ^ b - 1)"
  by (simp add: Math_pow2_def)

lemma discrete_code_range:
  assumes "1 \<le> b"
  shows "0 \<le> discrete_code v b \<and> discrete_code v b \<le> 2 ^ b - 1"
proof -
  let ?M = "Math_pow2 b - 1"
  let ?n = "normalize_clamp v"
  have M: "1 \<le> ?M" using assms by (rule maxVal_ge1)
  have n: "0 \<le> ?n" "?n \<le> 1" using normalize_clamp_range by simp_all
  have lo: "0 \<le> ?n * ?M" using n M by simp
  have hi: "?n * ?M \<le> ?M" using n M by (simp add: mult_left_le_one_le)
  have "0 \<le> \<lfloor>?n * ?M + 1 / 2\<rfloor>" using lo by simp
  moreover have "\<lfloor>?n * ?M + 1 / 2\<rfloor> \<le> \<lfloor>?M + 1 / 2\<rfloor>"
    using hi by (intro floor_mono) simp
  moreover have "\<lfloor>?M + 1 / 2\<rfloor> = 2 ^ b - 1"
    unfolding Math_pow2_int by linarith
  ultimately show ?thesis
    by (simp add: discrete_code_def Math_round_def)
qed

lemma discrete_code_near:
  "\<bar>real_of_int (discrete_code v b) - normalize_clamp v * (Math_pow2 b - 1)\<bar> \<le> 1 / 2"
  unfolding discrete_code_def Math_round_def by linarith

lemma quantizeValue_code:
  "b < 32 \<Longrightarrow> quantizeValue v b = real_of_int (discrete_code v b) / (Math_pow2 b - 1) * 2 - 1"
  by (simp add: quantizeValue_def discrete_code_def normalize_clamp_def Let_def)

lemma half_restore: "((x::real) * 2 - 1 + 1) / 2 = x"
  by simp

lemma scale_restore: "((x::real) * (2 / m) - 1 + 1) / 2 = x / m"
  by simp

lemma abs_scale: "0 < m \<Longrightarrow> \<bar>(x::real) * 2 / m\<bar> = \<bar>x\<bar> * 2 / m"
  by (simp add: abs_mult)

lemma unit_to_signed: "0 \<le> t \<Longrightarrow> t \<le> 1 \<Longrightarrow> - 1 \<le> (t::real) * 2 - 1 \<and> t * 2 - 1 \<le> 1"
  by simp

lemma signed_to_unit: "- 1 \<le> q \<Longrightarrow> q \<le> 1 \<Longrightarrow> 0 \<le> ((q::real) + 1) / 2 \<and> (q + 1) / 2 \<le> 1"
  by simp

lemma restore_mono: "(x::real) \<le> y \<Longrightarrow> x * 2 - 1 \<le> y * 2 - 1"
  by simp

lemma normalize_quantized:
  assumes "1 \<le> b" "b < 32"
  shows "normalize_clamp (quantizeValue v b) = real_of_int (discrete_code v b) / (Math_pow2 b - 1)"
proof -
  let ?M = "Math_pow2 b - 1"
  let ?k = "real_of_int (discrete_code v b)"
  have M: "1 \<le> ?M" using assms(1) by (rule maxVal_ge1)
  have "0 \<le> discrete_code v b" "discrete_code v b \<le> 2 ^ b - 1"
    using discrete_code_range[OF assms(1), of v] by simp_all
  then have k: "0 \<le> ?k" "?k \<le> ?M"
    unfolding Math_pow2_int of_int_le_iff by simp_all
  have r: "0 \<le> ?k / ?M" "?k / ?M \<le> 1" using k M by simp_all
  have "(quantizeValue v b + 1) / 2 = ?k / ?M"
    unfolding quantizeValue_code[OF assms(2)] by (rule half_restore)
  then have "normalize_clamp (quantizeValue v b) = max 0 (min 1 (?k / ?M))"
    unfolding normalize_clamp_def by (rule arg_cong)
  also have "\<dots> = ?k / ?M" using r by simp
  finally show ?thesis .
qed

lemma discrete_code_quantized:
  assumes "1 \<le> b" "b < 32"
  shows "discrete_code (quantizeValue v b) b = discrete_code v b"
proof -
  let ?M = "Math_pow2 b - 1"
  have M: "1 \<le> ?M" using assms(1) by (rule maxVal_ge1)
  have "normalize_clamp (quantizeValue v b) * ?M = real_of_int (discrete_code v b)"
    using M by (simp add: normalize_quantized[OF assms])
  then have "discrete_code (quantizeValue v b) b = \<lfloor>real_of_int (discrete_code v b) + 1 / 2\<rfloor>"
    by (simp add: discrete_code_def[of "quantizeValue v b"] Math_round_def)
  also have "\<dots> = discrete_code v b" by linarith
  finally show ?thesis .
qed

lemma quantizeValue_idem:
  assumes "1 \<le> b"
  shows "quantizeValue (quantizeValue a b) b = quantizeValue a b"
proof (cases "b < 32")
  case True
  have "quantizeValue (quantizeValue a b) b =
        real_of_int (discrete_code (quantizeValue a b) b) / (Math_pow2 b - 1) * 2 - 1"
    by (rule quantizeValue_code[OF True])
  also have "\<dots> = quantizeValue a b"
    unfolding discrete_code_quantized[OF assms True] by (rule quantizeValue_code[OF True, symmetric])
  finally show ?thesis .
next
  case False
  then show ?thesis by (simp add: quantizeValue_def)
qed


lemma quantizeValue_level:
  assumes "1 \<le> b" "b < 32"
  shows "quantizeValue a b = quantizationLevel b (nat (discrete_code a b))"
    and "nat (discrete_code a b) < 2 ^ b"
proof -
  have r: "0 \<le> discrete_code a b" "discrete_code a b \<le> 2 ^ b - 1"
    using discrete_code_range[OF assms(1), of a] by simp_all
  then have "real (nat (discrete_code a b)) = real_of_int (discrete_code a b)" by simp
  then show "quantizeValue a b = quantizationLevel b (nat (discrete_code a b))"
    by (simp add: quantizeValue_code[OF assms(2)] quantizationLevel_def Math_pow2_def)
  have "discrete_code a b < 2 ^ b" using r(2) by simp
  then show "nat (discrete_code a b) < 2 ^ b" using r(1)
    by (metis nat_less_numeral_power_cancel_iff)
qed

lemma quantizationLevel_inj:
  assumes "1 \<le> b"
  shows "inj (quantizationLevel b)"
proof (rule injI)
  fix j k assume e: "quantizationLevel b j = quantizationLevel b k"
  have M: "1 \<le> Math_pow2 b - 1" using assms by (rule maxVal_ge1)
  then have "2 / ((2::real) ^ b - 1) \<noteq> 0" by (simp add: Math_pow2_def)
  with e show "j = k" by (simp add: quantizationLevel_def)
qed

lemma quantizationLevels_card:
  assumes "1 \<le> b"
  shows "card (quantizationLevels b) = 2 ^ b"
proof -
  have "inj_on (quantizationLevel b) {k. k < 2 ^ b}"
    using quantizationLevel_inj[OF assms] by (rule inj_on_subset) simp
  then have "card (quantizationLevels b) = card {k::nat. k < 2 ^ b}"
    unfolding quantizationLevels_def by (rule card_image)
  then show ?thesis by simp
qed

lemma quantizationLevel_range:
  assumes "1 \<le> b" "k < 2 ^ b"
  shows "- 1 \<le> quantizationLevel b k \<and> quantizationLevel b k \<le> 1"
proof -
  let ?M = "(2::real) ^ b - 1"
  have M: "1 \<le> ?M" using maxVal_ge1[OF assms(1)] by (simp add: Math_pow2_def)
  have "Suc k \<le> 2 ^ b" using assms(2) by simp
  then have "real (Suc k) \<le> real (2 ^ b)" by (simp only: of_nat_le_iff)
  then have k: "real k \<le> ?M" by simp
  have "0 \<le> real k / ?M" "real k / ?M \<le> 1" using k M by simp_all
  moreover have "quantizationLevel b k = real k / ?M * 2 - 1"
    by (simp add: quantizationLevel_def)
  ultimately show ?thesis using unit_to_signed[of "real k / ?M"] by simp
qed

lemma quantizeValue_error:
  assumes "- 1 \<le> a" "a \<le> 1" "1 \<le> b" "b < 32"
  shows "\<bar>quantizeValue a b - a\<bar> \<le> 1 / (2 ^ b - 1)"
proof -
  let ?M = "Math_pow2 b - 1"
  let ?k = "real_of_int (discrete_code a b)"
  have M: "1 \<le> ?M" using assms(3) by (rule maxVal_ge1)
  have n: "normalize_clamp a = (a + 1) / 2"
    using assms(1,2) by (simp add: normalize_clamp_def)
  have near: "\<bar>?k - (a + 1) / 2 * ?M\<bar> \<le> 1 / 2"
    using discrete_code_near[of a b] unfolding n .
  have "quantizeValue a b - a = (?k - (a + 1) / 2 * ?M) * 2 / ?M"
    using M by (simp add: quantizeValue_code[OF assms(4)] field_simps)
  moreover have "\<bar>(?k - (a + 1) / 2 * ?M) * 2 / ?M\<bar> = \<bar>?k - (a + 1) / 2 * ?M\<bar> * 2 / ?M"
    using M by (intro abs_scale) simp
  ultimately have "\<bar>quantizeValue a b - a\<bar> = \<bar>?k - (a + 1) / 2 * ?M\<bar> * 2 / ?M"
    by (simp only:)
  also have "\<dots> \<le> (1 / 2) * 2 / ?M"
    using near M by (intro divide_right_mono mult_right_mono) simp_all
  finally show ?thesis by (simp add: Math_pow2_def)
qed

lemma quantizeValue_of_level:
  assumes "1 \<le> b" "b < 32" "k < 2 ^ b"
  shows "quantizeValue (quantizationLevel b k) b = quantizationLevel b k"
proof -
  let ?M = "Math_pow2 b - 1"
  have M: "1 \<le> ?M" using assms(1) by (rule maxVal_ge1)
  have r: "- 1 \<le> quantizationLevel b k" "quantizationLevel b k \<le> 1"
    using quantizationLevel_range[OF assms(1,3)] by simp_all
  have "(quantizationLevel b k + 1) / 2 = real k / ?M"
    unfolding quantizationLevel_def Math_pow2_def by (rule scale_restore)
  then have "normalize_clamp (quantizationLevel b k) = max 0 (min 1 (real k / ?M))"
    unfolding normalize_clamp_def by (rule arg_cong)
  moreover have "0 \<le> real k / ?M" "real k / ?M \<le> 1"
    using signed_to_unit[OF r] \<open>(quantizationLevel b k + 1) / 2 = real k / ?M\<close> by simp_all
  ultimately have "normalize_clamp (quantizationLevel b k) = real k / ?M" by simp
  then have "normalize_clamp (quantizationLevel b k) * ?M = real k" using M by simp
  then have "discrete_code (quantizationLevel b k) b = \<lfloor>real k + 1 / 2\<rfloor>"
    by (simp add: discrete_code_def Math_round_def)
  also have "\<dots> = int k" by linarith
  finally have "discrete_code (quantizationLevel b k) b = int k" .
  then show ?thesis
    by (simp add: quantizeValue_code[OF assms(2)] quantizationLevel_def Math_pow2_def)
qed

lemma quantizeValue_image:
  assumes "1 \<le> b" "b < 32"
  shows "(\<lambda>a. quantizeValue a b) ` {- 1 .. 1} = quantizationLevels b"
proof (rule set_eqI, rule iffI)
  fix q assume "q \<in> (\<lambda>a. quantizeValue a b) ` {- 1 .. 1}"
  then obtain a where "q = quantizeValue a b" by blast
  then show "q \<in> quantizationLevels b"
    using quantizeValue_level[OF assms, of a] by (auto simp: quantizationLevels_def)
next
  fix q assume "q \<in> quantizationLevels b"
  then obtain k where k: "k < 2 ^ b" "q = quantizationLevel b k"
    by (auto simp: quantizationLevels_def)
  then have "q \<in> {- 1 .. 1}" using quantizationLevel_range[OF assms(1) k(1)] by simp
  moreover have "quantizeValue q b = q" using quantizeValue_of_level[OF assms k(1)] k(2) by simp
  ultimately show "q \<in> (\<lambda>a. quantizeValue a b) ` {- 1 .. 1}" by force
qed


lemma normalize_clamp_mono: "a1 \<le> a2 \<Longrightarrow> normalize_clamp a1 \<le> normalize_clamp a2"
  unfolding normalize_clamp_def by (intro max.mono min.mono) simp_all

lemma discrete_code_mono:
  assumes "1 \<le> b" "a1 \<le> a2"
  shows "discrete_code a1 b \<le> discrete_code a2 b"
proof -
  have "0 \<le> Math_pow2 b - 1" using maxVal_ge1[OF assms(1)] by simp
  then have "normalize_clamp a1 * (Math_pow2 b - 1) \<le> normalize_clamp a2 * (Math_pow2 b - 1)"
    using normalize_clamp_mono[OF assms(2)] by (rule mult_right_mono[rotated])
  then show ?thesis
    unfolding discrete_code_def Math_round_def by (intro floor_mono) simp
qed

lemma normalize_clamp_clamped: "normalize_clamp (max (- 1) (min 1 a)) = normalize_clamp a"
  by (simp add: normalize_clamp_def max_def min_def)

lemma discrete_code_ends:
  assumes "1 \<le> b"
  shows "discrete_code (- 1) b = 0" and "discrete_code 1 b = 2 ^ b - 1"
proof -
  show "discrete_code (- 1) b = 0"
    by (simp add: discrete_code_def normalize_clamp_def Math_round_def)
  have "discrete_code 1 b = \<lfloor>Math_pow2 b - 1 + 1 / 2\<rfloor>"
    by (simp add: discrete_code_def normalize_clamp_def Math_round_def)
  also have "\<dots> = 2 ^ b - 1" unfolding Math_pow2_int by linarith
  finally show "discrete_code 1 b = 2 ^ b - 1" .
qed

text \<open>
  In exact arithmetic the value of \<open>quantizeValue\<close> at an amplitude of \<open>[-1, 1]\<close> is one of
  the \<open>2 ^ b\<close> quantization levels, each level is such a value, and the value is at most
  \<open>1 / (2 ^ b - 1)\<close> away from the amplitude.
\<close>

lemma quantizeValue_exact_levels_and_error:
  assumes "- 1 \<le> a" "a \<le> 1" "1 \<le> b" "b \<le> 31"
  shows "quantizeValue a b \<in> quantizationLevels b
       \<and> card (quantizationLevels b) = 2 ^ b
       \<and> quantizationLevels b \<subseteq> {- 1 .. 1}
       \<and> (\<lambda>v. quantizeValue v b) ` {- 1 .. 1} = quantizationLevels b
       \<and> \<bar>quantizeValue a b - a\<bar> \<le> 1 / (2 ^ b - 1)"
proof -
  have b: "b < 32" using assms(4) by simp
  have "quantizeValue a b \<in> quantizationLevels b"
    using quantizeValue_level[OF assms(3) b, of a] by (auto simp: quantizationLevels_def)
  moreover have "card (quantizationLevels b) = 2 ^ b"
    using assms(3) by (rule quantizationLevels_card)
  moreover have "quantizationLevels b \<subseteq> {- 1 .. 1}"
    using quantizationLevel_range[OF assms(3)] by (auto simp: quantizationLevels_def)
  moreover have "(\<lambda>v. quantizeValue v b) ` {- 1 .. 1} = quantizationLevels b"
    using assms(3) b by (rule quantizeValue_image)
  moreover have "\<bar>quantizeValue a b - a\<bar> \<le> 1 / (2 ^ b - 1)"
    using assms(1,2,3) b by (rule quantizeValue_error)
  ultimately show ?thesis by blast
qed

text \<open>
  Claim C5, amended. For every real amplitude and a bit depth from 1 to 31, the quantized
  value lies in \<open>[-1, 1]\<close> and equals the quantized value of the amplitude clamped to
  \<open>[-1, 1]\<close>. (At bit depth 32 the guard returns the amplitude as it is.)
\<close>
theorem quantizeValue_clamps_below_32:
  assumes "1 \<le> b" "b \<le> 31"
  shows "- 1 \<le> quantizeValue a b \<and> quantizeValue a b \<le> 1
       \<and> quantizeValue a b = quantizeValue (max (- 1) (min 1 a)) b"
proof -
  have b: "b < 32" using assms(2) by simp
  have "- 1 \<le> quantizeValue a b \<and> quantizeValue a b \<le> 1"
    using quantizeValue_level[OF assms(1) b, of a] quantizationLevel_range[OF assms(1)]
    by simp
  moreover have "discrete_code (max (- 1) (min 1 a)) b = discrete_code a b"
    by (simp add: discrete_code_def normalize_clamp_clamped)
  then have "quantizeValue a b = quantizeValue (max (- 1) (min 1 a)) b"
    by (simp add: quantizeValue_code[OF b])
  ultimately show ?thesis by blast
qed

theorem quantizeValue_clamps_below_32_witness:
  "((1::nat) \<le> 4 \<and> (4::nat) \<le> 31)
   \<and> - 1 \<le> quantizeValue 7 4 \<and> quantizeValue 7 4 \<le> 1
   \<and> quantizeValue 7 4 = quantizeValue (max (- 1) (min 1 7)) 4"
  using quantizeValue_clamps_below_32[of 4 7] by simp

text \<open>
  Claim C5 as stated includes bit depth 32, where the amplitude 2 comes back as 2: outside
  \<open>[-1, 1]\<close> and different from the quantized value of the clamped amplitude.
\<close>

theorem quantizeValue_32_not_clamped:
  "quantizeValue 2 32 = 2 \<and> \<not> quantizeValue 2 32 \<le> 1
   \<and> quantizeValue 2 32 \<noteq> quantizeValue (max (- 1) (min 1 2)) 32"
  by (simp add: quantizeValue_def)

text \<open>
  Claim C7. For a fixed bit depth from 1 to 32 the quantizer is monotone:
  \<open>a1 < a2\<close> gives \<open>quantizeValue a1 b \<le> quantizeValue a2 b\<close>.
\<close>
theorem quantizeValue_monotone:
  assumes "1 \<le> b" "b \<le> 32" "a1 < a2"
  shows "quantizeValue a1 b \<le> quantizeValue a2 b"
proof (cases "b < 32")
  case True
  have M: "0 \<le> Math_pow2 b - 1" using maxVal_ge1[OF assms(1)] by simp
  have "discrete_code a1 b \<le> discrete_code a2 b"
    using assms(1,3) by (intro discrete_code_mono) simp_all
  then have "real_of_int (discrete_code a1 b) / (Math_pow2 b - 1)
           \<le> real_of_int (discrete_code a2 b) / (Math_pow2 b - 1)"
    using M by (intro divide_right_mono) simp_all
  then show ?thesis unfolding quantizeValue_code[OF True] by (rule restore_mono)
next
  case False
  then show ?thesis using assms(3) by (simp add: quantizeValue_def)
qed

theorem quantizeValue_monotone_witness:
  "((1::nat) \<le> 3 \<and> (3::nat) \<le> 32 \<and> (- 1 / 2 :: real) < 1 / 3)
   \<and> quantizeValue (- 1 / 2) 3 \<le> quantizeValue (1 / 3) 3"
  using quantizeValue_monotone[of 3 "- 1 / 2" "1 / 3"] by simp

text \<open>
  Claim C8. Quantization is idempotent: for every amplitude and every bit depth from 1
  to 32, quantizing a quantized value gives it back.
\<close>
theorem quantizeValue_idempotent:
  assumes "1 \<le> b" "b \<le> 32"
  shows "quantizeValue (quantizeValue a b) b = quantizeValue a b"
  using assms(1) by (rule quantizeValue_idem)

theorem quantizeValue_idempotent_witness:
  "((1::nat) \<le> 4 \<and> (4::nat) \<le> 32)
   \<and> quantizeValue (quantizeValue (3 / 10) 4) 4 = quantizeValue (3 / 10) 4"
  using quantizeValue_idempotent[of 4 "3 / 10"] by simp

text \<open>
  Claim C9. At bit depth 32, and at every bit depth above it, the quantizer returns its
  input unchanged.
\<close>
theorem quantizeValue_32_identity:
  "quantizeValue a 32 = a \<and> quantizeValue a (32 + n) = a"
  by (simp add: quantizeValue_def)

text \<open>
  Claim C10. For every bit depth from 1 to 31 the full-scale amplitudes are fixed points
  of the quantizer, \<open>quantizeValue (-1) b = -1\<close> and \<open>quantizeValue 1 b = 1\<close>, and both are
  quantization levels.
\<close>
theorem quantizeValue_full_scale:
  assumes "1 \<le> b" "b \<le> 31"
  shows "quantizeValue (- 1) b = - 1 \<and> quantizeValue 1 b = 1
       \<and> - 1 \<in> quantizationLevels b \<and> 1 \<in> quantizationLevels b"
proof -
  have b: "b < 32" using assms(2) by simp
  have M: "Math_pow2 b - 1 \<noteq> 0" using maxVal_ge1[OF assms(1)] by simp
  have lo: "quantizeValue (- 1) b = - 1"
    by (simp add: quantizeValue_code[OF b] discrete_code_ends(1)[OF assms(1)])
  have "real_of_int (discrete_code 1 b) = Math_pow2 b - 1"
    unfolding discrete_code_ends(2)[OF assms(1)] by (simp add: Math_pow2_def)
  then have hi: "quantizeValue 1 b = 1"
    using M by (simp add: quantizeValue_code[OF b])
  have "quantizeValue (- 1) b \<in> quantizationLevels b" "quantizeValue 1 b \<in> quantizationLevels b"
    using quantizeValue_level[OF assms(1) b] by (auto simp: quantizationLevels_def)
  then show ?thesis using lo hi by simp
qed

theorem quantizeValue_full_scale_witness:
  "((1::nat) \<le> 1 \<and> (1::nat) \<le> 31)
   \<and> quantizeValue (- 1) 1 = - 1 \<and> quantizeValue 1 1 = 1"
  using quantizeValue_full_scale[of 1] by simp

section \<open>The quantizer in double precision\<close>

lemma pow2_powr: "pow2 e = 2 powr real_of_int e"
  by (simp add: pow2_def powr_real_of_int inverse_eq_divide)

lemma pow2_pos: "0 < pow2 e"
  by (simp add: pow2_powr)

lemma pow2_add: "pow2 (d + e) = pow2 d * pow2 e"
  by (simp add: pow2_powr powr_add)

lemma pow2_nat: "pow2 (int n) = 2 ^ n"
  by (simp add: pow2_def)

lemma pow2_neg: "pow2 (- int n) = 1 / 2 ^ n"
  by (simp add: pow2_powr powr_minus powr_realpow divide_inverse)

lemma pow2_mono: "d \<le> e \<Longrightarrow> pow2 d \<le> pow2 e"
  by (simp add: pow2_powr)

lemma pow2_less_iff: "pow2 d < pow2 e \<longleftrightarrow> d < e"
  by (simp add: pow2_powr)

lemma binade_bounds:
  assumes "0 < x"
  shows "pow2 (binade x) \<le> x \<and> x < pow2 (binade x + 1)"
proof (cases "1 \<le> x")
  case True
  let ?n = "\<lfloor>x\<rfloor>"
  have n: "0 < ?n" using True by simp
  have b1: "1 \<le> bitlen ?n" using n by (simp add: bitlen_alt_def)
  have e: "binade x = bitlen ?n - 1" using True by (simp add: binade_def)
  have lo: "(2::int) ^ nat (bitlen ?n - 1) \<le> ?n" and hi: "?n < 2 ^ nat (bitlen ?n)"
    using bitlen_bounds[OF n] by simp_all
  have "pow2 (binade x) = real_of_int (2 ^ nat (bitlen ?n - 1))"
    using b1 by (simp add: e pow2_def)
  also have "\<dots> \<le> real_of_int ?n" using lo by (simp only: of_int_le_iff)
  also have "\<dots> \<le> x" by simp
  finally have A: "pow2 (binade x) \<le> x" .
  have "?n + 1 \<le> 2 ^ nat (bitlen ?n)" using hi by simp
  then have "real_of_int (?n + 1) \<le> real_of_int (2 ^ nat (bitlen ?n))" by (simp only: of_int_le_iff)
  moreover have "x < real_of_int (?n + 1)" by linarith
  moreover have "pow2 (binade x + 1) = real_of_int (2 ^ nat (bitlen ?n))"
    using b1 by (simp add: e pow2_def)
  ultimately have "x < pow2 (binade x + 1)" by linarith
  with A show ?thesis by simp
next
  case False
  let ?y = "1 / x"
  let ?m = "\<lceil>?y\<rceil> - 1"
  have y: "1 < ?y" using False assms by simp
  have m: "0 < ?m" using y by linarith
  let ?L = "bitlen ?m"
  have L1: "1 \<le> ?L" using m by (simp add: bitlen_alt_def)
  have e: "binade x = - ?L" using False by (simp add: binade_def)
  have lo: "(2::int) ^ nat (?L - 1) \<le> ?m" and hi: "?m < 2 ^ nat ?L"
    using bitlen_bounds[OF m] by simp_all
  have my: "real_of_int ?m < ?y" "?y \<le> real_of_int (?m + 1)" by linarith+
  have "real_of_int (?m + 1) \<le> real_of_int (2 ^ nat ?L)"
    using hi by (simp only: of_int_le_iff)
  then have "?y \<le> real_of_int (2 ^ nat ?L)" using my(2) by linarith
  then have "?y \<le> 2 ^ nat ?L" by (simp only: of_int_power of_int_numeral)
  then have "1 \<le> 2 ^ nat ?L * x" using assms by (simp add: field_simps)
  then have A: "pow2 (binade x) \<le> x" using L1 by (simp add: e pow2_def field_simps)
  have "real_of_int (2 ^ nat (?L - 1)) \<le> real_of_int ?m" using lo by (simp only: of_int_le_iff)
  then have "real_of_int (2 ^ nat (?L - 1)) < ?y" using my(1) by linarith
  then have "2 ^ nat (?L - 1) < ?y" by (simp only: of_int_power of_int_numeral)
  then have B0: "2 ^ nat (?L - 1) * x < 1" using assms by (simp add: field_simps)
  have "x < pow2 (binade x + 1)"
  proof (cases "?L = 1")
    case True
    then show ?thesis using B0 by (simp add: e pow2_def)
  next
    case False
    then have "- ?L + 1 < 0" using L1 by simp
    moreover have "nat (?L - 1) = nat (- (- ?L + 1))" by simp
    ultimately show ?thesis using B0 by (simp add: e pow2_def field_simps)
  qed
  with A show ?thesis by simp
qed

lemma binade_eqI:
  assumes "pow2 e \<le> x" "x < pow2 (e + 1)"
  shows "binade x = e"
proof -
  have x: "0 < x" using assms(1) pow2_pos[of e] by linarith
  note b = binade_bounds[OF x]
  have "pow2 e < pow2 (binade x + 1)" using assms(1) b by linarith
  then have "e < binade x + 1" by (simp add: pow2_less_iff)
  moreover have "pow2 (binade x) < pow2 (e + 1)" using assms(2) b by linarith
  then have "binade x < e + 1" by (simp add: pow2_less_iff)
  ultimately show ?thesis by simp
qed

lemma roundTiesToEven_near: "\<bar>real_of_int (roundTiesToEven y) - y\<bar> \<le> 1 / 2"
  unfolding roundTiesToEven_def Let_def by (auto; linarith)

lemma roundTiesToEven_int: "roundTiesToEven (real_of_int n) = n"
  by (simp add: roundTiesToEven_def)

lemma toDouble_error: "\<bar>toDouble x - x\<bar> \<le> \<bar>x\<bar> / 2 ^ 53"
proof (cases "x = 0")
  case True
  then show ?thesis by (simp add: toDouble_def)
next
  case False
  let ?e = "binade \<bar>x\<bar>"
  let ?ulp = "pow2 (?e - 52)"
  have pos: "0 < ?ulp" by (rule pow2_pos)
  have ax: "0 < \<bar>x\<bar>" using False by simp
  have lo: "pow2 ?e \<le> \<bar>x\<bar>" using binade_bounds[OF ax] by simp
  have "toDouble x - x = (real_of_int (roundTiesToEven (x / ?ulp)) - x / ?ulp) * ?ulp"
    using False pos by (simp add: toDouble_def Let_def field_simps)
  then have "\<bar>toDouble x - x\<bar> = \<bar>real_of_int (roundTiesToEven (x / ?ulp)) - x / ?ulp\<bar> * ?ulp"
    using pos by (simp add: abs_mult)
  also have "\<dots> \<le> 1 / 2 * ?ulp"
    using roundTiesToEven_near[of "x / ?ulp"] pos by (intro mult_right_mono) simp_all
  also have "\<dots> = pow2 ?e / 2 ^ 53"
  proof -
    have "pow2 (?e - 52) = pow2 ?e * pow2 (- 52)" using pow2_add[of ?e "- 52"] by simp
    moreover have "pow2 (- 52) = 1 / 2 ^ 52" by (simp add: pow2_def)
    ultimately show ?thesis by simp
  qed
  also have "\<dots> \<le> \<bar>x\<bar> / 2 ^ 53" using lo by (simp add: divide_right_mono)
  finally show ?thesis .
qed

lemma toDouble_int:
  assumes "\<bar>k\<bar> < 2 ^ 53"
  shows "toDouble (real_of_int k) = real_of_int k"
proof (cases "k = 0")
  case True
  then show ?thesis by (simp add: toDouble_def)
next
  case False
  let ?x = "real_of_int k"
  let ?e = "binade \<bar>?x\<bar>"
  have ax: "0 < \<bar>?x\<bar>" using False by simp
  note b = binade_bounds[OF ax]
  have "1 \<le> \<bar>k\<bar>" using False by simp
  then have "real_of_int 1 \<le> real_of_int \<bar>k\<bar>" by (simp only: of_int_le_iff)
  then have "1 \<le> \<bar>?x\<bar>" by simp
  then have "pow2 0 < pow2 (?e + 1)" using b by (simp add: pow2_def)
  then have e0: "0 \<le> ?e" by (simp add: pow2_less_iff)
  have "real_of_int \<bar>k\<bar> < real_of_int (2 ^ 53)" using assms by (simp only: of_int_less_iff)
  then have "\<bar>?x\<bar> < 2 ^ 53" by simp
  then have "pow2 ?e < pow2 53" using b by (simp add: pow2_def)
  then have e53: "?e \<le> 52" by (simp add: pow2_less_iff)
  obtain d where d: "?e - 52 = - int d" using e53 by (metis add.inverse_inverse diff_le_0_iff_le nonpos_int_cases)
  have "?x / pow2 (?e - 52) = real_of_int (k * 2 ^ d)" by (simp add: d pow2_neg)
  then have "roundTiesToEven (?x / pow2 (?e - 52)) = k * 2 ^ d"
    by (simp only: roundTiesToEven_int)
  then show ?thesis using False by (simp add: toDouble_def Let_def d pow2_neg)
qed

lemma toDouble_below_one: "toDouble (1 - 1 / 2 ^ 60) = 1"
proof -
  let ?x = "1 - 1 / 2 ^ 60 :: real"
  have "binade \<bar>?x\<bar> = - 1" by (rule binade_eqI) (simp_all add: pow2_def)
  moreover have "roundTiesToEven (?x / pow2 (- 53)) = 2 ^ 53"
    by (simp add: roundTiesToEven_def pow2_def Let_def)
  ultimately show ?thesis by (simp add: toDouble_def Let_def) (simp add: pow2_def)
qed

text \<open>For example, the double nearest to \<open>1 / 10\<close> is \<open>3602879701896397 / 2 ^ 55\<close>.\<close>

lemma toDouble_tenth: "toDouble (1 / 10) = 3602879701896397 / 2 ^ 55"
proof -
  have "binade \<bar>1 / 10 :: real\<bar> = - 4" by (rule binade_eqI) (simp_all add: pow2_def)
  moreover have "roundTiesToEven ((1 / 10) / pow2 (- 56)) = 7205759403792794"
    by (simp add: roundTiesToEven_def pow2_def Let_def)
  ultimately show ?thesis by (simp add: toDouble_def Let_def) (simp add: pow2_def)
qed

lemma unitRoundoff_bounds: "0 < unitRoundoff" "unitRoundoff < 1 / 1000000"
  by (simp_all add: unitRoundoff_def)

lemma toDouble_close: "\<bar>x\<bar> \<le> c \<Longrightarrow> \<bar>toDouble x - x\<bar> \<le> c * unitRoundoff"
proof -
  assume "\<bar>x\<bar> \<le> c"
  then have "\<bar>x\<bar> / 2 ^ 53 \<le> c / 2 ^ 53" by (simp add: divide_right_mono)
  with toDouble_error[of x] show ?thesis by (simp add: unitRoundoff_def)
qed

lemma toDouble_nonneg: "0 \<le> x \<Longrightarrow> 0 \<le> toDouble x"
proof -
  assume x: "0 \<le> x"
  have "\<bar>x\<bar> \<le> x" using x by simp
  then have "\<bar>toDouble x - x\<bar> \<le> x * unitRoundoff" by (rule toDouble_close)
  moreover have "x * unitRoundoff \<le> x * 1"
    using x unitRoundoff_bounds by (intro mult_left_mono) simp_all
  ultimately show ?thesis by linarith
qed

lemma maxVal_bounds:
  assumes "1 \<le> b" "b < 32"
  shows "1 \<le> (2::real) ^ b - 1" and "(2::real) ^ b - 1 < 2 ^ 31"
proof -
  show "1 \<le> (2::real) ^ b - 1" using maxVal_ge1[OF assms(1)] by (simp add: Math_pow2_def)
  have "(2::real) ^ b \<le> 2 ^ 31" using assms(2) by (intro power_increasing) simp_all
  then show "(2::real) ^ b - 1 < 2 ^ 31" by simp
qed

lemma maxVal_double:
  assumes "b < 32"
  shows "toDouble (Math_pow2 b - 1) = 2 ^ b - 1"
proof -
  have "(2::int) ^ b \<le> 2 ^ 31" using assms by (intro power_increasing) simp_all
  then have "\<bar>(2::int) ^ b - 1\<bar> < 2 ^ 53" by simp
  then have "toDouble (real_of_int (2 ^ b - 1)) = real_of_int (2 ^ b - 1)" by (rule toDouble_int)
  then show ?thesis by (simp add: Math_pow2_def)
qed

lemma quantizeValue_double_code:
  assumes "b < 32"
  shows "quantizeValue_double v b
       = toDouble (toDouble (toDouble (real_of_int (discrete_double v b) / (2 ^ b - 1)) * 2) - 1)"
  using assms
  by (simp add: quantizeValue_double_def discrete_double_def Let_def maxVal_double)

lemma abs_chain_half:
  "\<bar>t - A\<bar> \<le> 2 * u \<Longrightarrow> \<bar>n - t / 2\<bar> \<le> 2 * u \<Longrightarrow> \<bar>n - A / 2\<bar> \<le> 3 * (u::real)"
  by linarith

lemma clamp_close:
  "0 \<le> c \<Longrightarrow> c \<le> 1 \<Longrightarrow> \<bar>x - c\<bar> \<le> e \<Longrightarrow> \<bar>max 0 (min 1 x) - c\<bar> \<le> (e::real)"
  by (simp add: max_def min_def) linarith

lemma normalized_double_close:
  assumes "- 1 \<le> a" "a \<le> 1"
  defines "n \<equiv> max 0 (min 1 (toDouble (toDouble (a + 1) / 2)))"
  shows "0 \<le> n" and "n \<le> 1" and "\<bar>n - (a + 1) / 2\<bar> \<le> 3 * unitRoundoff"
proof -
  let ?u = unitRoundoff
  let ?A = "a + 1"
  let ?t = "toDouble ?A"
  let ?n0 = "toDouble (?t / 2)"
  note u = unitRoundoff_bounds
  show "0 \<le> n" "n \<le> 1" by (simp_all add: n_def)
  have A: "0 \<le> ?A" "?A \<le> 2" using assms(1,2) by simp_all
  have "\<bar>?A\<bar> \<le> 2" using A by simp
  then have t: "\<bar>?t - ?A\<bar> \<le> 2 * ?u" by (rule toDouble_close)
  have "\<bar>?t / 2\<bar> \<le> 2" using t A u by linarith
  then have n0: "\<bar>?n0 - ?t / 2\<bar> \<le> 2 * ?u" by (rule toDouble_close)
  have c: "\<bar>?n0 - ?A / 2\<bar> \<le> 3 * ?u" using t n0 by (rule abs_chain_half)
  have "0 \<le> ?A / 2" "?A / 2 \<le> 1" using A by simp_all
  then show "\<bar>n - ?A / 2\<bar> \<le> 3 * ?u"
    using c unfolding n_def by (rule clamp_close)
qed

lemma discrete_double_props:
  assumes "- 1 \<le> a" "a \<le> 1" "1 \<le> b" "b < 32"
  shows "0 \<le> discrete_double a b" and "discrete_double a b \<le> 2 ^ b - 1"
    and "\<bar>real_of_int (discrete_double a b) / (2 ^ b - 1) - (a + 1) / 2\<bar>
         \<le> 1 / (2 * (2 ^ b - 1)) + 4 * unitRoundoff"
proof -
  let ?u = unitRoundoff
  let ?M = "(2::real) ^ b - 1"
  let ?n = "max 0 (min 1 (toDouble (toDouble (a + 1) / 2)))"
  let ?p = "toDouble (?n * ?M)"
  let ?k = "discrete_double a b"
  note u = unitRoundoff_bounds
  note M = maxVal_bounds[OF assms(3,4)]
  note n = normalized_double_close[OF assms(1,2)]
  have k: "?k = \<lfloor>?p + 1 / 2\<rfloor>" by (simp add: discrete_double_def Math_round_def)
  have nM: "0 \<le> ?n * ?M" "?n * ?M \<le> ?M" using n(1,2) M(1) by (simp_all add: mult_left_le_one_le)
  have "\<bar>?n * ?M\<bar> \<le> ?M" using nM by simp
  then have p: "\<bar>?p - ?n * ?M\<bar> \<le> ?M * ?u" by (rule toDouble_close)
  have p0: "0 \<le> ?p" using nM(1) by (rule toDouble_nonneg)
  have uM: "?M * ?u < 1 / 2"
  proof -
    have "?M * ?u \<le> 2 ^ 31 * ?u" using M(2) u(1) by (intro mult_right_mono) simp_all
    also have "\<dots> < 1 / 2" by (simp add: unitRoundoff_def)
    finally show ?thesis .
  qed
  have "0 \<le> \<lfloor>?p + 1 / 2\<rfloor>" using p0 by simp
  then show "0 \<le> ?k" by (simp add: k)
  have "?p + 1 / 2 < ?M + 1" using p nM uM by linarith
  then have "?p + 1 / 2 < real_of_int (2 ^ b - 1 + 1)" by simp
  then have "\<lfloor>?p + 1 / 2\<rfloor> < 2 ^ b - 1 + 1" by (simp only: floor_less_iff)
  then show "?k \<le> 2 ^ b - 1" by (simp add: k)
  have kp: "\<bar>real_of_int ?k - ?p\<bar> \<le> 1 / 2" unfolding k by linarith
  have "\<bar>real_of_int ?k - ?n * ?M\<bar> \<le> 1 / 2 + ?M * ?u" using kp p by linarith
  then have "\<bar>real_of_int ?k - ?n * ?M\<bar> / ?M \<le> (1 / 2 + ?M * ?u) / ?M"
    using M(1) by (intro divide_right_mono) simp_all
  moreover have "\<bar>real_of_int ?k - ?n * ?M\<bar> / ?M = \<bar>real_of_int ?k / ?M - ?n\<bar>"
  proof -
    have "real_of_int ?k / ?M - ?n = (real_of_int ?k - ?n * ?M) / ?M"
      using M(1) by (simp add: field_simps)
    then show ?thesis using M(1) by (simp add: abs_divide)
  qed
  moreover have "(1 / 2 + ?M * ?u) / ?M = 1 / (2 * ?M) + ?u"
    using M(1) by (simp add: field_simps)
  ultimately have "\<bar>real_of_int ?k / ?M - ?n\<bar> \<le> 1 / (2 * ?M) + ?u" by simp
  then show "\<bar>real_of_int ?k / ?M - (a + 1) / 2\<bar> \<le> 1 / (2 * ?M) + 4 * ?u"
    using n(3) by linarith
qed


lemma toDouble_small_ints:
  "toDouble 0 = 0" "toDouble 1 = 1" "toDouble 2 = 2" "toDouble (- 1) = - 1"
  using toDouble_int[of 0] toDouble_int[of 1] toDouble_int[of 2] toDouble_int[of "- 1"]
  by simp_all

lemma abs_chain_level:
  "\<bar>r - c\<bar> \<le> u \<Longrightarrow> \<bar>s - r * 2\<bar> \<le> 3 * u \<Longrightarrow> \<bar>q - (s - 1)\<bar> \<le> 2 * u
   \<Longrightarrow> \<bar>q - (c * 2 - 1)\<bar> \<le> 7 * (u::real)"
  by linarith

lemma doubleLevel_close:
  assumes "1 \<le> b" "b < 32" "real k \<le> 2 ^ b - 1"
  shows "\<bar>doubleLevel b k - quantizationLevel b k\<bar> \<le> 7 * unitRoundoff"
proof -
  let ?u = unitRoundoff
  let ?M = "(2::real) ^ b - 1"
  let ?c = "real k / ?M"
  let ?r = "toDouble ?c"
  let ?s = "toDouble (?r * 2)"
  let ?q = "toDouble (?s - 1)"
  note u = unitRoundoff_bounds
  note M = maxVal_bounds[OF assms(1,2)]
  have c: "0 \<le> ?c" "?c \<le> 1" using assms(3) M(1) by simp_all
  have "\<bar>?c\<bar> \<le> 1" using c by simp
  then have r: "\<bar>?r - ?c\<bar> \<le> 1 * ?u" by (rule toDouble_close)
  have "\<bar>?r * 2\<bar> \<le> 3" using r c u by linarith
  then have s: "\<bar>?s - ?r * 2\<bar> \<le> 3 * ?u" by (rule toDouble_close)
  have "\<bar>?s - 1\<bar> \<le> 2" using s r c u by linarith
  then have q: "\<bar>?q - (?s - 1)\<bar> \<le> 2 * ?u" by (rule toDouble_close)
  have r': "\<bar>?r - ?c\<bar> \<le> ?u" using r by simp
  have "\<bar>?q - (?c * 2 - 1)\<bar> \<le> 7 * ?u" using r' s q by (rule abs_chain_level)
  moreover have "quantizationLevel b k = ?c * 2 - 1" by (simp add: quantizationLevel_def)
  ultimately show ?thesis by (simp add: doubleLevel_def)
qed

lemma doubleLevel_ends:
  assumes "1 \<le> b" "b < 32"
  shows "doubleLevel b 0 = - 1" and "doubleLevel b (2 ^ b - 1) = 1"
proof -
  note M = maxVal_bounds[OF assms]
  show "doubleLevel b 0 = - 1" by (simp add: doubleLevel_def toDouble_small_ints)
  have "real (2 ^ b - 1) = (2::real) ^ b - 1" by (simp add: of_nat_diff)
  then have "real (2 ^ b - 1) / ((2::real) ^ b - 1) = 1" using M(1) by simp
  then show "doubleLevel b (2 ^ b - 1) = 1" by (simp add: doubleLevel_def toDouble_small_ints)
qed

lemma level_gap:
  assumes "1 \<le> b" "b < 32"
  shows "16 * unitRoundoff < 2 / ((2::real) ^ b - 1)"
proof -
  note M = maxVal_bounds[OF assms]
  have "16 * unitRoundoff < 2 / 2 ^ 31" by (simp add: unitRoundoff_def)
  also have "\<dots> \<le> 2 / ((2::real) ^ b - 1)" using M by (intro divide_left_mono) simp_all
  finally show ?thesis .
qed

lemma quantizationLevel_step:
  assumes "1 \<le> b" "j < k"
  shows "quantizationLevel b j + 2 / (2 ^ b - 1) \<le> quantizationLevel b k"
proof -
  have M: "0 < (2::real) ^ b - 1" using maxVal_ge1[OF assms(1)] by (simp add: Math_pow2_def)
  define g where "g = 2 / ((2::real) ^ b - 1)"
  have g: "0 \<le> g" using M by (simp add: g_def)
  have "real j + 1 \<le> real k" using assms(2) by simp
  then have "(real j + 1) * g \<le> real k * g" using g by (rule mult_right_mono)
  moreover have "(real j + 1) * g = real j * g + g" by (simp add: distrib_right)
  ultimately have "real j * g - 1 + g \<le> real k * g - 1" by linarith
  then show ?thesis by (simp add: quantizationLevel_def g_def)
qed

lemma doubleLevel_strict_mono:
  assumes "1 \<le> b" "b < 32" "j < k" "k < 2 ^ b"
  shows "doubleLevel b j < doubleLevel b k"
proof -
  have kM: "real k \<le> 2 ^ b - 1"
  proof -
    have "Suc k \<le> 2 ^ b" using assms(4) by simp
    then have "real (Suc k) \<le> real (2 ^ b)" by (simp only: of_nat_le_iff)
    then show ?thesis by simp
  qed
  then have jM: "real j \<le> 2 ^ b - 1" using assms(3) by simp
  note cj = doubleLevel_close[OF assms(1,2) jM]
  note ck = doubleLevel_close[OF assms(1,2) kM]
  note step = quantizationLevel_step[OF assms(1,3)]
  note gap = level_gap[OF assms(1,2)]
  show ?thesis using cj ck step gap by linarith
qed

lemma doubleLevel_inj:
  assumes "1 \<le> b" "b < 32"
  shows "inj_on (doubleLevel b) {k. k < 2 ^ b}"
proof (rule inj_onI)
  fix j k assume jk: "j \<in> {k. k < 2 ^ b}" "k \<in> {k. k < 2 ^ b}"
    and eq: "doubleLevel b j = doubleLevel b k"
  show "j = k"
  proof (rule ccontr)
    assume "j \<noteq> k"
    then consider "j < k" | "k < j" by linarith
    then show False
    proof cases
      case 1
      then show ?thesis using doubleLevel_strict_mono[OF assms 1] jk eq by simp
    next
      case 2
      then show ?thesis using doubleLevel_strict_mono[OF assms 2] jk eq by simp
    qed
  qed
qed

lemma doubleLevels_card:
  assumes "1 \<le> b" "b < 32"
  shows "card (doubleLevels b) = 2 ^ b"
proof -
  have "card (doubleLevels b) = card {k::nat. k < 2 ^ b}"
    unfolding doubleLevels_def using doubleLevel_inj[OF assms] by (rule card_image)
  then show ?thesis by simp
qed

lemma doubleLevel_range:
  assumes "1 \<le> b" "b < 32" "k < 2 ^ b"
  shows "- 1 \<le> doubleLevel b k \<and> doubleLevel b k \<le> 1"
proof -
  have top: "2 ^ b - 1 < (2::nat) ^ b" by simp
  have lo: "- 1 \<le> doubleLevel b k"
  proof (cases "k = 0")
    case True
    then show ?thesis by (simp add: doubleLevel_ends(1)[OF assms(1,2)])
  next
    case False
    then have "0 < k" by simp
    then have "doubleLevel b 0 < doubleLevel b k"
      using assms by (intro doubleLevel_strict_mono) simp_all
    then show ?thesis by (simp add: doubleLevel_ends(1)[OF assms(1,2)])
  qed
  have hi: "doubleLevel b k \<le> 1"
  proof (cases "k = 2 ^ b - 1")
    case True
    show ?thesis unfolding True doubleLevel_ends(2)[OF assms(1,2)] by simp
  next
    case False
    then have "k < 2 ^ b - 1" using assms(3) by simp
    then have "doubleLevel b k < doubleLevel b (2 ^ b - 1)"
      using assms(1,2) top by (intro doubleLevel_strict_mono) simp_all
    then show ?thesis unfolding doubleLevel_ends(2)[OF assms(1,2)] by simp
  qed
  show ?thesis using lo hi by simp
qed


lemma abs_chain_error:
  "\<bar>q - (c * 2 - 1)\<bar> \<le> 7 * u \<Longrightarrow> \<bar>c - (a + 1) / 2\<bar> \<le> h + 4 * u
   \<Longrightarrow> \<bar>q - a\<bar> \<le> 2 * h + 15 * (u::real)"
  by argo

lemma twice_half_inverse: "2 * (1 / (2 * m)) = 1 / (m::real)"
  by simp

lemma quantizeValue_double_level:
  assumes "- 1 \<le> a" "a \<le> 1" "1 \<le> b" "b < 32"
  shows "quantizeValue_double a b = doubleLevel b (nat (discrete_double a b))"
    and "nat (discrete_double a b) < 2 ^ b"
proof -
  note k = discrete_double_props(1,2)[OF assms]
  have "real (nat (discrete_double a b)) = real_of_int (discrete_double a b)" using k(1) by simp
  then show "quantizeValue_double a b = doubleLevel b (nat (discrete_double a b))"
    by (simp add: quantizeValue_double_code[OF assms(4)] doubleLevel_def)
  have "discrete_double a b < 2 ^ b" using k(2) by simp
  then show "nat (discrete_double a b) < 2 ^ b" using k(1)
    by (metis nat_less_numeral_power_cancel_iff)
qed

lemma quantizeValue_double_error:
  assumes "- 1 \<le> a" "a \<le> 1" "1 \<le> b" "b < 32"
  shows "\<bar>quantizeValue_double a b - a\<bar> \<le> 1 / (2 ^ b - 1) + 15 * unitRoundoff"
proof -
  let ?M = "(2::real) ^ b - 1"
  let ?k = "discrete_double a b"
  note M = maxVal_bounds[OF assms(3,4)]
  note k = discrete_double_props[OF assms]
  have kr: "real (nat ?k) = real_of_int ?k" using k(1) by simp
  have "real_of_int ?k \<le> real_of_int (2 ^ b - 1)" using k(2) by (simp only: of_int_le_iff)
  then have kM: "real (nat ?k) \<le> ?M" unfolding kr by simp
  have lvl: "quantizationLevel b (nat ?k) = real_of_int ?k / ?M * 2 - 1"
    unfolding quantizationLevel_def kr by simp
  have q: "\<bar>quantizeValue_double a b - (real_of_int ?k / ?M * 2 - 1)\<bar> \<le> 7 * unitRoundoff"
    using doubleLevel_close[OF assms(3,4) kM]
    unfolding quantizeValue_double_level(1)[OF assms] lvl .
  have "\<bar>quantizeValue_double a b - a\<bar> \<le> 2 * (1 / (2 * ?M)) + 15 * unitRoundoff"
    using q k(3) by (rule abs_chain_error)
  then show ?thesis unfolding twice_half_inverse .
qed

text \<open>
  Claim C4, amended. For an amplitude \<open>a\<close> in \<open>[-1, 1]\<close> and a bit depth from 1 to 31, the
  value the program computes in double precision is one of exactly \<open>2 ^ b\<close> values, all
  within \<open>[-1, 1]\<close>, the \<open>k\<close>-th of them at most \<open>2 ^ - 50\<close> away from the equally spaced
  level \<open>k * (2 / (2 ^ b - 1)) - 1\<close>; and it is at most \<open>1 / (2 ^ b - 1) + 2 ^ - 49\<close> away
  from \<open>a\<close>.
\<close>

theorem quantizeValue_double_levels_and_error:
  assumes "- 1 \<le> a" "a \<le> 1" "1 \<le> b" "b \<le> 31"
  shows "quantizeValue_double a b \<in> doubleLevels b
       \<and> card (doubleLevels b) = 2 ^ b
       \<and> doubleLevels b \<subseteq> {- 1 .. 1}
       \<and> (\<forall>k < 2 ^ b. \<bar>doubleLevel b k - quantizationLevel b k\<bar> \<le> 1 / 2 ^ 50)
       \<and> \<bar>quantizeValue_double a b - a\<bar> \<le> 1 / (2 ^ b - 1) + 1 / 2 ^ 49"
proof -
  have b: "b < 32" using assms(4) by simp
  have u7: "7 * unitRoundoff \<le> 1 / 2 ^ 50" and u15: "15 * unitRoundoff \<le> 1 / 2 ^ 49"
    by (simp_all add: unitRoundoff_def)
  have "quantizeValue_double a b \<in> doubleLevels b"
    using quantizeValue_double_level[OF assms(1,2,3) b] by (auto simp: doubleLevels_def)
  moreover have "card (doubleLevels b) = 2 ^ b"
    using assms(3) b by (rule doubleLevels_card)
  moreover have "doubleLevels b \<subseteq> {- 1 .. 1}"
    using doubleLevel_range[OF assms(3) b] by (auto simp: doubleLevels_def)
  moreover have "\<forall>k < 2 ^ b. \<bar>doubleLevel b k - quantizationLevel b k\<bar> \<le> 1 / 2 ^ 50"
  proof (intro allI impI)
    fix k :: nat assume "k < 2 ^ b"
    then have "Suc k \<le> 2 ^ b" by simp
    then have "real (Suc k) \<le> real (2 ^ b)" by (simp only: of_nat_le_iff)
    then have "real k \<le> 2 ^ b - 1" by simp
    then show "\<bar>doubleLevel b k - quantizationLevel b k\<bar> \<le> 1 / 2 ^ 50"
      using doubleLevel_close[OF assms(3) b] u7 by force
  qed
  moreover have "\<bar>quantizeValue_double a b - a\<bar> \<le> 1 / (2 ^ b - 1) + 1 / 2 ^ 49"
    using quantizeValue_double_error[OF assms(1,2,3) b] u15 by linarith
  ultimately show ?thesis by blast
qed

theorem quantizeValue_double_levels_and_error_witness:
  "(- 1 \<le> (1 / 4 :: real) \<and> (1 / 4 :: real) \<le> 1 \<and> (1::nat) \<le> 3 \<and> (3::nat) \<le> 31)
   \<and> quantizeValue_double (1 / 4) 3 \<in> doubleLevels 3
   \<and> card (doubleLevels 3) = 2 ^ 3
   \<and> \<bar>quantizeValue_double (1 / 4) 3 - 1 / 4\<bar> \<le> 1 / (2 ^ 3 - 1) + 1 / 2 ^ 49"
  using quantizeValue_double_levels_and_error[of "1 / 4" 3] by simp

lemma toDouble_half: "toDouble (1 / 2) = 1 / 2"
proof -
  have "binade \<bar>1 / 2 :: real\<bar> = - 1" by (rule binade_eqI) (simp_all add: pow2_def)
  moreover have "roundTiesToEven ((1 / 2) / pow2 (- 53)) = 2 ^ 52"
    by (simp add: roundTiesToEven_def pow2_def Let_def)
  ultimately show ?thesis by (simp add: toDouble_def Let_def) (simp add: pow2_def)
qed

lemma toDouble_tiny: "toDouble (- (1 / 2 ^ 60)) = - (1 / 2 ^ 60)"
proof -
  have "binade \<bar>- (1 / 2 ^ 60) :: real\<bar> = - 60" by (rule binade_eqI) (simp_all add: pow2_def)
  moreover have "roundTiesToEven (- (1 / 2 ^ 60) / pow2 (- 112)) = - (2 ^ 52)"
    using roundTiesToEven_int[of "- (2 ^ 52)"] by (simp add: pow2_def)
  ultimately show ?thesis by (simp add: toDouble_def Let_def) (simp add: pow2_def)
qed

lemma discrete_double_tie: "discrete_double (- (1 / 2 ^ 60)) 1 = 1"
proof -
  have "toDouble (- (1 / 2 ^ 60) + 1) = 1" using toDouble_below_one by simp
  then show ?thesis
    by (simp add: discrete_double_def toDouble_half Math_round_def)
qed

text \<open>
  Claim C4 as stated, with the bound \<open>1 / (2 ^ b - 1)\<close> itself, fails in double precision.
  The amplitude \<open>- 2 ^ - 60\<close> is a double; at 1 bit \<open>value + 1\<close> rounds to 1, the normalized
  value is the tie \<open>1 / 2\<close>, \<open>Math.round\<close> takes it to code 1 and the result is 1, at a
  distance of \<open>1 + 2 ^ - 60\<close> from the amplitude.
\<close>

theorem quantizeValue_double_exceeds_bound:
  "toDouble (- (1 / 2 ^ 60)) = - (1 / 2 ^ 60)
   \<and> - 1 \<le> (- (1 / 2 ^ 60) :: real) \<and> (- (1 / 2 ^ 60) :: real) \<le> 1
   \<and> quantizeValue_double (- (1 / 2 ^ 60)) 1 = 1
   \<and> \<not> \<bar>quantizeValue_double (- (1 / 2 ^ 60)) 1 - (- (1 / 2 ^ 60))\<bar> \<le> 1 / (2 ^ 1 - 1)"
proof -
  have "quantizeValue_double (- (1 / 2 ^ 60)) 1
      = toDouble (toDouble (toDouble
          (real_of_int (discrete_double (- (1 / 2 ^ 60)) 1) / (2 ^ 1 - 1)) * 2) - 1)"
    by (rule quantizeValue_double_code) simp
  also have "\<dots> = 1" unfolding discrete_double_tie by (simp add: toDouble_small_ints)
  finally have q: "quantizeValue_double (- (1 / 2 ^ 60)) 1 = 1" .
  show ?thesis unfolding q toDouble_tiny by simp
qed

section \<open>Properties of \<open>formatBinary\<close>\<close>

lemma decodeBinary_snoc:
  "decodeBinary (s @ [c]) = 2 * decodeBinary s + (if c = CHR ''1'' then 1 else 0)"
  by (simp add: decodeBinary_def)

lemma decodeBinary_digit: "d < 2 \<Longrightarrow> decodeBinary [binaryDigit d] = d"
  by (auto simp: decodeBinary_def binaryDigit_def)

lemma decodeBinary_natToString2: "decodeBinary (natToString2 n) = n"
proof (induction n rule: natToString2.induct)
  case (1 n)
  show ?case
  proof (cases "n < 2")
    case True
    then show ?thesis by (subst natToString2.simps) (simp add: decodeBinary_digit)
  next
    case False
    then have "decodeBinary (natToString2 (n div 2)) = n div 2" using 1 by simp
    moreover have "(if binaryDigit (n mod 2) = CHR ''1'' then 1 else 0) = n mod 2"
      by (auto simp: binaryDigit_def)
    ultimately show ?thesis using False
      by (subst natToString2.simps) (simp add: decodeBinary_snoc)
  qed
qed

lemma decodeBinary_zeros: "decodeBinary (replicate n (CHR ''0'') @ s) = decodeBinary s"
proof -
  have "foldl (\<lambda>acc c. 2 * acc + (if c = CHR ''1'' then 1 else 0)) (0::nat) (replicate n (CHR ''0'')) = 0"
    by (induction n) simp_all
  then show ?thesis by (simp add: decodeBinary_def)
qed

lemma discrete_code_nonneg: "0 \<le> discrete_code v b"
proof -
  have "0 \<le> normalize_clamp v" using normalize_clamp_range by simp
  moreover have "0 \<le> Math_pow2 b - 1" by (simp add: Math_pow2_def)
  ultimately have "0 \<le> normalize_clamp v * (Math_pow2 b - 1)" by simp
  then show ?thesis by (simp add: discrete_code_def Math_round_def)
qed

lemma formatBinary_code:
  "formatBinary v b = padStart (toString2 (discrete_code v b)) b (CHR ''0'')"
  by (simp add: formatBinary_def discrete_code_def normalize_clamp_def Let_def)

lemma decodeBinary_formatBinary: "decodeBinary (formatBinary v b) = nat (discrete_code v b)"
  using discrete_code_nonneg[of v b]
  by (simp add: formatBinary_code padStart_def toString2_def decodeBinary_zeros decodeBinary_natToString2)

lemma length_natToString2: "0 < b \<Longrightarrow> n < 2 ^ b \<Longrightarrow> length (natToString2 n) \<le> b"
proof (induction n arbitrary: b rule: natToString2.induct)
  case (1 n)
  show ?case
  proof (cases "n < 2")
    case True
    then show ?thesis using "1.prems" by (subst natToString2.simps) simp
  next
    case False
    then obtain b' where b': "b = Suc b'" using "1.prems" by (cases b) simp_all
    have "b' \<noteq> 0" using False "1.prems" b' by (cases b') simp_all
    moreover have "n div 2 < 2 ^ b'" using "1.prems" b' by simp
    ultimately have "length (natToString2 (n div 2)) \<le> b'" using False "1.IH"[of b'] by simp
    then show ?thesis using False b' by (subst natToString2.simps) simp
  qed
qed

text \<open>
  Claim C6, amended. For every amplitude and every bit depth from 1 to 31, reading the
  binary string of \<open>formatBinary\<close> back as an integer code and rescaling it,
  \<open>code / (2 ^ b - 1)\<close> mapped to \<open>[-1, 1]\<close>, gives exactly the value of \<open>quantizeValue\<close>; the
  string has \<open>b\<close> digits.
\<close>

theorem formatBinary_roundtrip:
  assumes "1 \<le> b" "b \<le> 31"
  shows "rescaleCode (decodeBinary (formatBinary a b)) b = quantizeValue a b
       \<and> length (formatBinary a b) = b"
proof -
  have b: "b < 32" using assms(2) by simp
  have k: "0 \<le> discrete_code a b" by (rule discrete_code_nonneg)
  have "rescaleCode (decodeBinary (formatBinary a b)) b = quantizeValue a b"
    using k by (simp add: decodeBinary_formatBinary rescaleCode_def quantizeValue_code[OF b] Math_pow2_def)
  moreover have "length (natToString2 (nat (discrete_code a b))) \<le> b"
    using quantizeValue_level(2)[OF assms(1) b, of a] assms(1) by (intro length_natToString2) simp_all
  then have "length (formatBinary a b) = b"
    using k by (simp add: formatBinary_code padStart_def toString2_def)
  ultimately show ?thesis by simp
qed

theorem formatBinary_roundtrip_witness:
  "((1::nat) \<le> 3 \<and> (3::nat) \<le> 31)
   \<and> rescaleCode (decodeBinary (formatBinary (1 / 4) 3)) 3 = quantizeValue (1 / 4) 3
   \<and> length (formatBinary (1 / 4) 3) = 3"
  using formatBinary_roundtrip[of 3 "1 / 4"] by simp

lemma discrete_code_0_32: "discrete_code 0 32 = 2147483648"
  by (simp add: discrete_code_def Math_pow2_def normalize_clamp_def Math_round_def)

text \<open>
  Claim C6 as stated includes bit depth 32. There \<open>quantizeValue\<close> returns the amplitude 0
  as it is, while \<open>formatBinary\<close> has no such guard and encodes 0 as the code \<open>2 ^ 31\<close>,
  which rescales to \<open>1 / (2 ^ 32 - 1)\<close>.
\<close>

theorem formatBinary_32_no_roundtrip:
  "rescaleCode (decodeBinary (formatBinary 0 32)) 32 \<noteq> quantizeValue 0 32"
  by (simp add: decodeBinary_formatBinary discrete_code_0_32 rescaleCode_def quantizeValue_def)

section \<open>Strides\<close>

lemma drawStep_ge1: "1 \<le> drawStep w"
  by (simp add: drawStep_def)

lemma skip_ge1: "1 \<le> skip r t"
  by (simp add: skip_def)

lemma drawStep_le_iff:
  assumes "1 \<le> s"
  shows "real_of_int (drawStep w) \<le> s \<longleftrightarrow> w < 2000 * (\<lfloor>s\<rfloor> + 1)"
proof -
  have one: "1 \<le> \<lfloor>s\<rfloor>" using assms by (simp add: le_floor_iff)
  have "real_of_int (drawStep w) \<le> s \<longleftrightarrow> drawStep w \<le> \<lfloor>s\<rfloor>"
    by (simp add: le_floor_iff)
  also have "\<dots> \<longleftrightarrow> \<lfloor>real_of_int w / 2000\<rfloor> \<le> \<lfloor>s\<rfloor>"
    using one by (simp add: drawStep_def)
  also have "\<dots> \<longleftrightarrow> \<lfloor>real_of_int w / 2000\<rfloor> < \<lfloor>s\<rfloor> + 1" by linarith
  also have "\<dots> \<longleftrightarrow> real_of_int w / 2000 < real_of_int (\<lfloor>s\<rfloor> + 1)"
    by (rule floor_less_iff)
  also have "\<dots> \<longleftrightarrow> real_of_int w < real_of_int (2000 * (\<lfloor>s\<rfloor> + 1))"
    by (simp add: field_simps)
  also have "\<dots> \<longleftrightarrow> w < 2000 * (\<lfloor>s\<rfloor> + 1)" by (rule of_int_less_iff)
  finally show ?thesis .
qed

text \<open>
  Claim C3, amended. For every source length, native and target sample rate above 0 and
  zoom of at least 1, both strides are at least 1, and the stride of the continuous curve
  (\<open>drawStep\<close>) is at most the stride of the discrete samples (\<open>skip\<close>) exactly when the
  window holds fewer than \<open>2000 * (\<lfloor>skip\<rfloor> + 1)\<close> samples.
\<close>

theorem referenceStride_le_samplingStride_iff:
  assumes "0 < nativeSampleRate" "0 < targetSampleRate" "1 \<le> z"
  shows "1 \<le> drawStep (windowSize sourceLength z)
       \<and> 1 \<le> skip nativeSampleRate targetSampleRate
       \<and> (real_of_int (drawStep (windowSize sourceLength z)) \<le> skip nativeSampleRate targetSampleRate
            \<longleftrightarrow> windowSize sourceLength z < 2000 * (\<lfloor>skip nativeSampleRate targetSampleRate\<rfloor> + 1))"
  using drawStep_ge1 skip_ge1 drawStep_le_iff[OF skip_ge1] by simp

theorem referenceStride_le_samplingStride_iff_witness:
  "((0::real) < 44100 \<and> (0::real) < 4410 \<and> (1::real) \<le> 50)
   \<and> real_of_int (drawStep (windowSize 44100 50)) \<le> skip 44100 4410
   \<and> windowSize 44100 50 < 2000 * (\<lfloor>skip 44100 4410\<rfloor> + 1)"
  using referenceStride_le_samplingStride_iff[of 44100 4410 50 44100]
  by (simp add: windowSize_def skip_def drawStep_def)

text \<open>
  Claim C3 as stated fails for ten seconds of audio at 44100 Hz shown whole (zoom 1) with
  the target rate at the native rate: the curve is drawn every 220th sample, the discrete
  samples at every sample.
\<close>

theorem referenceStride_exceeds_samplingStride:
  "drawStep (windowSize 441000 1) = 220 \<and> skip 44100 44100 = 1
   \<and> \<not> real_of_int (drawStep (windowSize 441000 1)) \<le> skip 44100 44100"
  by (simp add: drawStep_def windowSize_def skip_def)

section \<open>The canvas and the preview table\<close>

lemma samplingLoop_unfold:
  "samplingLoop p data r w sw i =
     (if i < real_of_int w \<and> \<not> int (length data) \<le> \<lfloor>i\<rfloor> then
        \<lparr>pt_i = i, pt_idx = nat \<lfloor>i\<rfloor>, pt_originalVal = data ! nat \<lfloor>i\<rfloor>,
         pt_finalVal = (if showQuantization p then quantizeValue (data ! nat \<lfloor>i\<rfloor>) (bitDepth p)
                        else data ! nat \<lfloor>i\<rfloor>),
         pt_x = i * sw,
         pt_y = ampToY (height p)
                  (if showQuantization p then quantizeValue (data ! nat \<lfloor>i\<rfloor>) (bitDepth p)
                   else data ! nat \<lfloor>i\<rfloor>)\<rparr>
        # samplingLoop p data r w sw (i + skip r (sampleRateCtx p))
      else [])"
  by (subst samplingLoop.simps) (simp add: Let_def)

lemma samplingLoop_cong:
  "showQuantization p' = showQuantization p \<Longrightarrow> bitDepth p' = bitDepth p \<Longrightarrow>
   height p' = height p \<Longrightarrow> sampleRateCtx p' = sampleRateCtx p \<Longrightarrow>
   samplingLoop p' data r w sw i = samplingLoop p data r w sw i"
proof (induction p data r w sw i rule: samplingLoop.induct)
  case (1 p data r w sw i)
  show ?case
  proof (cases "i < real_of_int w \<and> \<not> int (length data) \<le> \<lfloor>i\<rfloor>")
    case True
    then have "samplingLoop p' data r w sw (i + skip r (sampleRateCtx p))
             = samplingLoop p data r w sw (i + skip r (sampleRateCtx p))"
      using "1.IH"[OF _ refl _ refl refl refl refl] "1.prems" by simp
    then show ?thesis
      using True "1.prems"
      by (simp add: samplingLoop_unfold[of p' data r w sw i] samplingLoop_unfold[of p data r w sw i])
  next
    case False
    then show ?thesis
      by (auto simp: samplingLoop_unfold[of p' data r w sw i] samplingLoop_unfold[of p data r w sw i])
  qed
qed

lemma samplingLoop_x:
  "sampleRateCtx p' = sampleRateCtx p \<Longrightarrow>
   map pt_x (samplingLoop p' data r w sw i) = map pt_x (samplingLoop p data r w sw i)"
proof (induction p data r w sw i rule: samplingLoop.induct)
  case (1 p data r w sw i)
  show ?case
  proof (cases "i < real_of_int w \<and> \<not> int (length data) \<le> \<lfloor>i\<rfloor>")
    case True
    then have "map pt_x (samplingLoop p' data r w sw (i + skip r (sampleRateCtx p)))
             = map pt_x (samplingLoop p data r w sw (i + skip r (sampleRateCtx p)))"
      using "1.IH"[OF _ refl _ refl refl refl refl] "1.prems" by simp
    then show ?thesis
      using True "1.prems"
      by (simp add: samplingLoop_unfold[of p' data r w sw i] samplingLoop_unfold[of p data r w sw i])
  next
    case False
    then show ?thesis
      by (auto simp: samplingLoop_unfold[of p' data r w sw i] samplingLoop_unfold[of p data r w sw i])
  qed
qed

lemma samplingLoop_originalVal:
  "sampleRateCtx p' = sampleRateCtx p \<Longrightarrow>
   map pt_originalVal (samplingLoop p' data r w sw i) = map pt_originalVal (samplingLoop p data r w sw i)"
proof (induction p data r w sw i rule: samplingLoop.induct)
  case (1 p data r w sw i)
  show ?case
  proof (cases "i < real_of_int w \<and> \<not> int (length data) \<le> \<lfloor>i\<rfloor>")
    case True
    then have "map pt_originalVal (samplingLoop p' data r w sw (i + skip r (sampleRateCtx p)))
             = map pt_originalVal (samplingLoop p data r w sw (i + skip r (sampleRateCtx p)))"
      using "1.IH"[OF _ refl _ refl refl refl refl] "1.prems" by simp
    then show ?thesis
      using True "1.prems"
      by (simp add: samplingLoop_unfold[of p' data r w sw i] samplingLoop_unfold[of p data r w sw i])
  next
    case False
    then show ?thesis
      by (auto simp: samplingLoop_unfold[of p' data r w sw i] samplingLoop_unfold[of p data r w sw i])
  qed
qed


lemma layer_Nil:
  "analogLayer [] = []" "samplingLayer [] = []" "holdLayer [] = []" "errorLayer [] = []"
  "gridLayer [] = []"
  by (simp_all add: analogLayer_def samplingLayer_def holdLayer_def errorLayer_def gridLayer_def)

lemma layer_Cons:
  "analogLayer (d # ds) = analogOf d @ analogLayer ds"
  "samplingLayer (d # ds) = stickOf d @ samplingLayer ds"
  "holdLayer (d # ds) = holdOf d @ holdLayer ds"
  "errorLayer (d # ds) = errorOf d @ errorLayer ds"
  "gridLayer (d # ds) = gridOf d @ gridLayer ds"
  by (simp_all add: analogLayer_def samplingLayer_def holdLayer_def errorLayer_def gridLayer_def)

lemma layer_append:
  "analogLayer (ds @ es) = analogLayer ds @ analogLayer es"
  "samplingLayer (ds @ es) = samplingLayer ds @ samplingLayer es"
  "holdLayer (ds @ es) = holdLayer ds @ holdLayer es"
  "errorLayer (ds @ es) = errorLayer ds @ errorLayer es"
  "gridLayer (ds @ es) = gridLayer ds @ gridLayer es"
  by (simp_all add: analogLayer_def samplingLayer_def holdLayer_def errorLayer_def gridLayer_def)

lemma layer_if:
  "analogLayer (if c then ds else es) = (if c then analogLayer ds else analogLayer es)"
  "samplingLayer (if c then ds else es) = (if c then samplingLayer ds else samplingLayer es)"
  "holdLayer (if c then ds else es) = (if c then holdLayer ds else holdLayer es)"
  "errorLayer (if c then ds else es) = (if c then errorLayer ds else errorLayer es)"
  "gridLayer (if c then ds else es) = (if c then gridLayer ds else gridLayer es)"
  by simp_all

lemmas layer_simps = layer_Nil layer_Cons layer_append layer_if

lemma analogLoop_unfold:
  "analogLoop data h sw w i x =
     (if i < w \<and> \<not> int (length data) \<le> i then
        AnalogPoint x (ampToY h (data ! nat i))
        # analogLoop data h sw w (i + drawStep w) (x + sw * real_of_int (drawStep w))
      else [])"
  by (subst analogLoop.simps) (simp add: Let_def)

lemma analogLoop_other_layers:
  "samplingLayer (analogLoop data h sw w i x) = []
   \<and> holdLayer (analogLoop data h sw w i x) = []
   \<and> errorLayer (analogLoop data h sw w i x) = []
   \<and> gridLayer (analogLoop data h sw w i x) = []"
proof (induction data h sw w i x rule: analogLoop.induct)
  case (1 data h sw w i x)
  show ?case
  proof (cases "i < w \<and> \<not> int (length data) \<le> i")
    case True
    then show ?thesis
      using "1.IH"[OF _ refl _ refl refl]
      by (simp add: analogLoop_unfold[of data h sw w i x] layer_Cons)
  next
    case False
    then show ?thesis
      by (auto simp: analogLoop_unfold[of data h sw w i x] layer_Nil)
  qed
qed

lemma gridLines_other_layers:
  "samplingLayer (gridLines p) = [] \<and> holdLayer (gridLines p) = []
   \<and> errorLayer (gridLines p) = [] \<and> analogLayer (gridLines p) = []"
  by (auto simp: gridLines_def Let_def analogLayer_def samplingLayer_def holdLayer_def errorLayer_def)

lemma drawSample_sticks:
  "samplingLayer (concat (map (drawSample p r sw) pts))
   = (if showSampling p then map (\<lambda>pt. (pt_x pt, pt_y pt)) pts else [])"
  by (induction pts) (simp_all add: drawSample_def Let_def layer_simps)

lemma drawSample_holds:
  "holdLayer (concat (map (drawSample p r sw) pts))
   = (if showQuantization p
      then map (\<lambda>pt. (pt_x pt, min (width p) ((pt_i pt + skip r (sampleRateCtx p)) * sw), pt_y pt)) pts
      else [])"
  by (induction pts) (simp_all add: drawSample_def Let_def layer_simps)

lemma drawSample_errors:
  "errorLayer (concat (map (drawSample p r sw) pts))
   = (if showError p
      then map (\<lambda>pt. (pt_x pt, ampToY (height p) (pt_originalVal pt), pt_y pt)) pts
      else [])"
  by (induction pts) (simp_all add: drawSample_def Let_def layer_simps)

lemma drawSample_other_layers:
  "analogLayer (concat (map (drawSample p r sw) pts)) = []
   \<and> gridLayer (concat (map (drawSample p r sw) pts)) = []"
  by (induction pts) (simp_all add: drawSample_def Let_def layer_simps)

lemma samplingLayer_render:
  "samplingLayer (render p) =
     (case audioBuffer p of None \<Rightarrow> []
      | Some buf \<Rightarrow>
          if showSampling p then map (\<lambda>pt. (pt_x pt, pt_y pt)) (samplingPoints p buf) else [])"
  by (simp add: render_def samplingPoints_def Let_def layer_simps gridLines_other_layers
        analogLoop_other_layers drawSample_sticks split: option.split)

lemma holdLayer_render:
  "holdLayer (render p) =
     (case audioBuffer p of None \<Rightarrow> []
      | Some buf \<Rightarrow>
          if showQuantization p
          then map (\<lambda>pt. (pt_x pt,
                          min (width p)
                            ((pt_i pt + skip (sampleRate buf) (sampleRateCtx p))
                             * (width p * 1 / real_of_int (windowSize (length (channelData0 buf)) (zoom p)))),
                          pt_y pt))
                 (samplingPoints p buf)
          else [])"
  by (simp add: render_def samplingPoints_def Let_def layer_simps gridLines_other_layers
        analogLoop_other_layers drawSample_holds split: option.split)

lemma errorLayer_render:
  "errorLayer (render p) =
     (case audioBuffer p of None \<Rightarrow> []
      | Some buf \<Rightarrow>
          if showError p \<and> (showSampling p \<or> showQuantization p)
          then map (\<lambda>pt. (pt_x pt, ampToY (height p) (pt_originalVal pt), pt_y pt))
                 (samplingPoints p buf)
          else [])"
  by (simp add: render_def samplingPoints_def Let_def layer_simps gridLines_other_layers
        analogLoop_other_layers drawSample_errors split: option.split)

lemma analogLayer_render:
  "analogLayer (render p) =
     (case audioBuffer p of None \<Rightarrow> []
      | Some buf \<Rightarrow>
          if showAnalog p
          then analogLayer
                 (analogLoop (channelData0 buf) (height p)
                    (width p * 1 / real_of_int (windowSize (length (channelData0 buf)) (zoom p)))
                    (windowSize (length (channelData0 buf)) (zoom p)) 0 0)
          else [])"
  by (simp add: render_def Let_def layer_simps gridLines_other_layers
        drawSample_other_layers split: option.split)

lemma gridLayer_render:
  "gridLayer (render p) =
     (case audioBuffer p of None \<Rightarrow> [] | Some buf \<Rightarrow> gridLayer (gridLines p))"
  by (simp add: render_def Let_def layer_simps analogLoop_other_layers
        drawSample_other_layers split: option.split)


lemma samplingPoints_showAnalog: "samplingPoints (p\<lparr>showAnalog := v\<rparr>) buf = samplingPoints p buf"
  by (simp add: samplingPoints_def samplingLoop_cong[of "p\<lparr>showAnalog := v\<rparr>" p])

lemma samplingPoints_showError: "samplingPoints (p\<lparr>showError := v\<rparr>) buf = samplingPoints p buf"
  by (simp add: samplingPoints_def samplingLoop_cong[of "p\<lparr>showError := v\<rparr>" p])

lemma samplingPoints_showSampling: "samplingPoints (p\<lparr>showSampling := v\<rparr>) buf = samplingPoints p buf"
  by (simp add: samplingPoints_def samplingLoop_cong[of "p\<lparr>showSampling := v\<rparr>" p])

lemma samplingPoints_showQuantization_x:
  "map pt_x (samplingPoints (p\<lparr>showQuantization := v\<rparr>) buf) = map pt_x (samplingPoints p buf)"
  by (simp add: samplingPoints_def Let_def samplingLoop_x[of "p\<lparr>showQuantization := v\<rparr>" p])

lemma samplingPoints_showQuantization_originalVal:
  "map pt_originalVal (samplingPoints (p\<lparr>showQuantization := v\<rparr>) buf)
   = map pt_originalVal (samplingPoints p buf)"
  by (simp add: samplingPoints_def Let_def samplingLoop_originalVal[of "p\<lparr>showQuantization := v\<rparr>" p])

lemma gridLines_upd:
  "gridLines (p\<lparr>showAnalog := v\<rparr>) = gridLines p"
  "gridLines (p\<lparr>showError := v\<rparr>) = gridLines p"
  "gridLines (p\<lparr>showSampling := v\<rparr>) = gridLines p"
  by (simp_all add: gridLines_def)

lemma toggle_showAnalog:
  "samplingLayer (render (p\<lparr>showAnalog := v\<rparr>)) = samplingLayer (render p)"
  "holdLayer (render (p\<lparr>showAnalog := v\<rparr>)) = holdLayer (render p)"
  "errorLayer (render (p\<lparr>showAnalog := v\<rparr>)) = errorLayer (render p)"
  "gridLayer (render (p\<lparr>showAnalog := v\<rparr>)) = gridLayer (render p)"
  by (auto simp: samplingLayer_render holdLayer_render errorLayer_render gridLayer_render
        samplingPoints_showAnalog gridLines_upd split: option.split)

lemma toggle_showError:
  "analogLayer (render (p\<lparr>showError := v\<rparr>)) = analogLayer (render p)"
  "samplingLayer (render (p\<lparr>showError := v\<rparr>)) = samplingLayer (render p)"
  "holdLayer (render (p\<lparr>showError := v\<rparr>)) = holdLayer (render p)"
  "gridLayer (render (p\<lparr>showError := v\<rparr>)) = gridLayer (render p)"
  by (simp_all add: analogLayer_render samplingLayer_render holdLayer_render gridLayer_render
        samplingPoints_showError gridLines_upd split: option.split)

lemma toggle_showSampling:
  "analogLayer (render (p\<lparr>showSampling := v\<rparr>)) = analogLayer (render p)"
  "holdLayer (render (p\<lparr>showSampling := v\<rparr>)) = holdLayer (render p)"
  "gridLayer (render (p\<lparr>showSampling := v\<rparr>)) = gridLayer (render p)"
  "errorLayer (render (p\<lparr>showQuantization := True, showSampling := v\<rparr>))
   = errorLayer (render (p\<lparr>showQuantization := True\<rparr>))"
  by (simp_all add: analogLayer_render holdLayer_render errorLayer_render gridLayer_render
        samplingPoints_showSampling gridLines_upd split: option.split)

lemma toggle_showQuantization:
  "analogLayer (render (p\<lparr>showQuantization := v\<rparr>)) = analogLayer (render p)"
  "map fst (samplingLayer (render (p\<lparr>showQuantization := v\<rparr>)))
   = map fst (samplingLayer (render p))"
  "map (\<lambda>(x, originalY, y). (x, originalY))
     (errorLayer (render (p\<lparr>showSampling := True, showQuantization := v\<rparr>)))
   = map (\<lambda>(x, originalY, y). (x, originalY)) (errorLayer (render (p\<lparr>showSampling := True\<rparr>)))"
proof -
  show "analogLayer (render (p\<lparr>showQuantization := v\<rparr>)) = analogLayer (render p)"
    by (simp add: analogLayer_render split: option.split)
  show "map fst (samplingLayer (render (p\<lparr>showQuantization := v\<rparr>)))
      = map fst (samplingLayer (render p))"
    by (simp add: samplingLayer_render comp_def samplingPoints_showQuantization_x split: option.split)
  have xo: "map (\<lambda>pt. (pt_x pt, ampToY h (pt_originalVal pt))) (samplingPoints (q\<lparr>showQuantization := v\<rparr>) buf)
          = map (\<lambda>pt. (pt_x pt, ampToY h (pt_originalVal pt))) (samplingPoints q buf)" for q buf h
  proof -
    have z: "map (\<lambda>pt. (pt_x pt, ampToY h (pt_originalVal pt))) ps
        = map (\<lambda>(a, b). (a, ampToY h b)) (zip (map pt_x ps) (map pt_originalVal ps))" for ps
      by (induction ps) simp_all
    show ?thesis
      unfolding z samplingPoints_showQuantization_x samplingPoints_showQuantization_originalVal
      by (rule refl)
  qed
  show "map (\<lambda>(x, originalY, y). (x, originalY))
          (errorLayer (render (p\<lparr>showSampling := True, showQuantization := v\<rparr>)))
      = map (\<lambda>(x, originalY, y). (x, originalY)) (errorLayer (render (p\<lparr>showSampling := True\<rparr>)))"
    by (simp add: errorLayer_render comp_def xo split: option.split)
qed

lemma samplingLoop_showQuantization:
  "samplingLoop (p\<lparr>showQuantization := v\<rparr>) data r w sw i =
     map (\<lambda>pt. pt\<lparr>pt_finalVal := (if v then quantizeValue (pt_originalVal pt) (bitDepth p)
                                    else pt_originalVal pt),
                    pt_y := ampToY (height p)
                              (if v then quantizeValue (pt_originalVal pt) (bitDepth p)
                               else pt_originalVal pt)\<rparr>)
       (samplingLoop p data r w sw i)"
proof (induction p data r w sw i rule: samplingLoop.induct)
  case (1 p data r w sw i)
  let ?q = "p\<lparr>showQuantization := v\<rparr>"
  show ?case
  proof (cases "i < real_of_int w \<and> \<not> int (length data) \<le> \<lfloor>i\<rfloor>")
    case True
    then show ?thesis
      using "1.IH"[OF _ refl _ refl refl refl refl]
      by (simp add: samplingLoop_unfold[of ?q data r w sw i] samplingLoop_unfold[of p data r w sw i])
  next
    case False
    then show ?thesis
      by (auto simp: samplingLoop_unfold[of ?q data r w sw i] samplingLoop_unfold[of p data r w sw i])
  qed
qed

lemma samplingPoints_showQuantization:
  "samplingPoints (p\<lparr>showQuantization := v\<rparr>) buf =
     map (\<lambda>pt. pt\<lparr>pt_finalVal := (if v then quantizeValue (pt_originalVal pt) (bitDepth p)
                                    else pt_originalVal pt),
                    pt_y := ampToY (height p)
                              (if v then quantizeValue (pt_originalVal pt) (bitDepth p)
                               else pt_originalVal pt)\<rparr>)
       (samplingPoints p buf)"
  by (simp add: samplingPoints_def Let_def samplingLoop_showQuantization)

lemma y_follows_showQuantization:
  "samplingLayer (render (p\<lparr>showSampling := True, showQuantization := True\<rparr>)) =
     (case audioBuffer p of None \<Rightarrow> []
      | Some buf \<Rightarrow>
          map (\<lambda>pt. (pt_x pt, ampToY (height p) (quantizeValue (pt_originalVal pt) (bitDepth p))))
            (samplingPoints p buf))"
  "samplingLayer (render (p\<lparr>showSampling := True, showQuantization := False\<rparr>)) =
     (case audioBuffer p of None \<Rightarrow> []
      | Some buf \<Rightarrow>
          map (\<lambda>pt. (pt_x pt, ampToY (height p) (pt_originalVal pt))) (samplingPoints p buf))"
  "errorLayer (render (p\<lparr>showError := True, showQuantization := True\<rparr>)) =
     (case audioBuffer p of None \<Rightarrow> []
      | Some buf \<Rightarrow>
          map (\<lambda>pt. (pt_x pt, ampToY (height p) (pt_originalVal pt),
                     ampToY (height p) (quantizeValue (pt_originalVal pt) (bitDepth p))))
            (samplingPoints p buf))"
  "errorLayer (render (p\<lparr>showError := True, showSampling := True, showQuantization := False\<rparr>)) =
     (case audioBuffer p of None \<Rightarrow> []
      | Some buf \<Rightarrow>
          map (\<lambda>pt. (pt_x pt, ampToY (height p) (pt_originalVal pt),
                     ampToY (height p) (pt_originalVal pt)))
            (samplingPoints p buf))"
  by (simp_all add: samplingLayer_render errorLayer_render samplingPoints_showQuantization
        samplingPoints_showSampling samplingPoints_showError comp_def split: option.split)

text \<open>
  Claim C2, amended. Setting \<open>showAnalog\<close> or \<open>showError\<close> to any value leaves the points
  of every other layer as they are. Setting \<open>showSampling\<close> leaves the analog curve, the
  hold steps and the grid as they are, and the error segments too while
  \<open>showQuantization\<close> is on. Setting \<open>showQuantization\<close> leaves the analog curve and the x
  coordinates of the sampling sticks as they are and, with \<open>showSampling\<close> on, the x
  coordinate and the original-amplitude end of every error segment. The y of a sampling
  stick and of the other end of an error segment is the height of the quantized amplitude
  when \<open>showQuantization\<close> is on and the height of the original amplitude when it is off,
  at the same points of the loop (whose \<open>pt_x\<close> and \<open>pt_originalVal\<close> no toggle changes).
\<close>

theorem layer_toggles:
  "(samplingLayer (render (p\<lparr>showAnalog := v\<rparr>)) = samplingLayer (render p)
    \<and> holdLayer (render (p\<lparr>showAnalog := v\<rparr>)) = holdLayer (render p)
    \<and> errorLayer (render (p\<lparr>showAnalog := v\<rparr>)) = errorLayer (render p)
    \<and> gridLayer (render (p\<lparr>showAnalog := v\<rparr>)) = gridLayer (render p))
   \<and> (analogLayer (render (p\<lparr>showError := v\<rparr>)) = analogLayer (render p)
    \<and> samplingLayer (render (p\<lparr>showError := v\<rparr>)) = samplingLayer (render p)
    \<and> holdLayer (render (p\<lparr>showError := v\<rparr>)) = holdLayer (render p)
    \<and> gridLayer (render (p\<lparr>showError := v\<rparr>)) = gridLayer (render p))
   \<and> (analogLayer (render (p\<lparr>showSampling := v\<rparr>)) = analogLayer (render p)
    \<and> holdLayer (render (p\<lparr>showSampling := v\<rparr>)) = holdLayer (render p)
    \<and> gridLayer (render (p\<lparr>showSampling := v\<rparr>)) = gridLayer (render p)
    \<and> errorLayer (render (p\<lparr>showQuantization := True, showSampling := v\<rparr>))
        = errorLayer (render (p\<lparr>showQuantization := True\<rparr>)))
   \<and> (analogLayer (render (p\<lparr>showQuantization := v\<rparr>)) = analogLayer (render p)
    \<and> map fst (samplingLayer (render (p\<lparr>showQuantization := v\<rparr>)))
        = map fst (samplingLayer (render p))
    \<and> map (\<lambda>(x, originalY, y). (x, originalY))
          (errorLayer (render (p\<lparr>showSampling := True, showQuantization := v\<rparr>)))
        = map (\<lambda>(x, originalY, y). (x, originalY))
            (errorLayer (render (p\<lparr>showSampling := True\<rparr>))))
   \<and> (samplingLayer (render (p\<lparr>showSampling := True, showQuantization := True\<rparr>)) =
        (case audioBuffer p of None \<Rightarrow> []
         | Some buf \<Rightarrow>
             map (\<lambda>pt. (pt_x pt,
                        ampToY (height p) (quantizeValue (pt_originalVal pt) (bitDepth p))))
               (samplingPoints p buf))
    \<and> samplingLayer (render (p\<lparr>showSampling := True, showQuantization := False\<rparr>)) =
        (case audioBuffer p of None \<Rightarrow> []
         | Some buf \<Rightarrow>
             map (\<lambda>pt. (pt_x pt, ampToY (height p) (pt_originalVal pt))) (samplingPoints p buf))
    \<and> errorLayer (render (p\<lparr>showError := True, showQuantization := True\<rparr>)) =
        (case audioBuffer p of None \<Rightarrow> []
         | Some buf \<Rightarrow>
             map (\<lambda>pt. (pt_x pt, ampToY (height p) (pt_originalVal pt),
                        ampToY (height p) (quantizeValue (pt_originalVal pt) (bitDepth p))))
               (samplingPoints p buf))
    \<and> errorLayer
          (render (p\<lparr>showError := True, showSampling := True, showQuantization := False\<rparr>)) =
        (case audioBuffer p of None \<Rightarrow> []
         | Some buf \<Rightarrow>
             map (\<lambda>pt. (pt_x pt, ampToY (height p) (pt_originalVal pt),
                        ampToY (height p) (pt_originalVal pt)))
               (samplingPoints p buf)))"
  by (intro conjI toggle_showAnalog toggle_showError toggle_showSampling toggle_showQuantization
        y_follows_showQuantization)

theorem layer_toggles_witness:
  "holdLayer (render (oneSampleProps\<lparr>showSampling := False\<rparr>)) = holdLayer (render oneSampleProps)
   \<and> map fst (samplingLayer (render (oneSampleProps\<lparr>showQuantization := False\<rparr>)))
       = map fst (samplingLayer (render oneSampleProps))"
  using layer_toggles[where p = oneSampleProps and v = False] by blast

lemma oneSample_points:
  "samplingPoints (oneSampleProps\<lparr>showSampling := s, showQuantization := q\<rparr>)
     \<lparr>channelData0 = [1 / 2], sampleRate = 44100\<rparr>
   = [\<lparr>pt_i = 0, pt_idx = 0, pt_originalVal = 1 / 2,
       pt_finalVal = (if q then 1 else 1 / 2), pt_x = 0,
       pt_y = (if q then 0 else 100)\<rparr>]"
  by (simp add: samplingPoints_def oneSampleProps_def windowSize_def samplingLoop.simps skip_def
        quantizeValue_def Math_pow2_def Math_round_def ampToY_def Let_def)

text \<open>
  Claim C2 as stated fails for \<open>showQuantization\<close>: with one sample of amplitude \<open>1 / 2\<close> at
  1 bit on a canvas 400 high, the stick of the sampling layer ends at \<open>y = 0\<close> (the quantized
  amplitude 1) with the toggle on and at \<open>y = 100\<close> with it off, and the error segment
  changes with it; with \<open>showQuantization\<close> off, \<open>showSampling\<close> decides whether the error
  segment is drawn at all.
\<close>

theorem showQuantization_moves_other_layers:
  "samplingLayer (render oneSampleProps) = [(0, 0)]
   \<and> samplingLayer (render (oneSampleProps\<lparr>showQuantization := False\<rparr>)) = [(0, 100)]
   \<and> errorLayer (render oneSampleProps) = [(0, 100, 0)]
   \<and> errorLayer (render (oneSampleProps\<lparr>showQuantization := False\<rparr>)) = [(0, 100, 100)]
   \<and> errorLayer (render (oneSampleProps\<lparr>showQuantization := False, showSampling := False\<rparr>)) = []"
proof -
  have a: "oneSampleProps = oneSampleProps\<lparr>showSampling := True, showQuantization := True\<rparr>"
    by (simp add: oneSampleProps_def)
  have b: "oneSampleProps\<lparr>showQuantization := False\<rparr>
         = oneSampleProps\<lparr>showSampling := True, showQuantization := False\<rparr>"
    by (simp add: oneSampleProps_def)
  have c: "audioBuffer oneSampleProps = Some \<lparr>channelData0 = [1 / 2], sampleRate = 44100\<rparr>"
    "showError oneSampleProps" "height oneSampleProps = 400"
    by (simp_all add: oneSampleProps_def)
  have "samplingLayer (render oneSampleProps) = [(0, 0)]"
    by (subst a) (simp add: samplingLayer_render oneSample_points c)
  moreover have "samplingLayer (render (oneSampleProps\<lparr>showQuantization := False\<rparr>)) = [(0, 100)]"
    by (subst b) (simp add: samplingLayer_render oneSample_points c)
  moreover have "errorLayer (render oneSampleProps) = [(0, 100, 0)]"
    by (subst a) (simp add: errorLayer_render oneSample_points c ampToY_def)
  moreover have "errorLayer (render (oneSampleProps\<lparr>showQuantization := False\<rparr>)) = [(0, 100, 100)]"
    by (subst b) (simp add: errorLayer_render oneSample_points c ampToY_def)
  moreover have "errorLayer (render (oneSampleProps\<lparr>showQuantization := False, showSampling := False\<rparr>)) = []"
    by (simp add: errorLayer_render c)
  ultimately show ?thesis by simp
qed


lemma samplingLoop_nth:
  "k < length (samplingLoop p data r w sw i) \<Longrightarrow> 0 \<le> i \<Longrightarrow>
   (let pt = samplingLoop p data r w sw i ! k;
        j = i + real k * skip r (sampleRateCtx p)
    in pt_i pt = j \<and> pt_idx pt = nat \<lfloor>j\<rfloor> \<and> \<lfloor>j\<rfloor> < int (length data)
       \<and> pt_originalVal pt = data ! nat \<lfloor>j\<rfloor>
       \<and> pt_finalVal pt = (if showQuantization p then quantizeValue (data ! nat \<lfloor>j\<rfloor>) (bitDepth p)
                           else data ! nat \<lfloor>j\<rfloor>)
       \<and> pt_x pt = j * sw
       \<and> pt_y pt = ampToY (height p) (pt_finalVal pt))"
proof (induction p data r w sw i arbitrary: k rule: samplingLoop.induct)
  case (1 p data r w sw i)
  have go: "i < real_of_int w \<and> \<not> int (length data) \<le> \<lfloor>i\<rfloor>"
  proof (rule ccontr)
    assume "\<not> ?thesis"
    then have "samplingLoop p data r w sw i = []"
      by (auto simp: samplingLoop_unfold[of p data r w sw i])
    then show False using "1.prems"(1) by simp
  qed
  show ?case
  proof (cases k)
    case 0
    then show ?thesis using go by (simp add: samplingLoop_unfold[of p data r w sw i] Let_def)
  next
    case (Suc k')
    let ?s = "skip r (sampleRateCtx p)"
    have len: "k' < length (samplingLoop p data r w sw (i + ?s))"
      using "1.prems"(1) go Suc by (simp add: samplingLoop_unfold[of p data r w sw i])
    have pos: "0 \<le> i + ?s" using "1.prems"(2) skip_ge1[of r "sampleRateCtx p"] by simp
    have j: "i + ?s + real k' * ?s = i + real k * ?s" using Suc by (simp add: algebra_simps)
    have nth: "samplingLoop p data r w sw i ! k = samplingLoop p data r w sw (i + ?s) ! k'"
      using go Suc by (simp add: samplingLoop_unfold[of p data r w sw i])
    show ?thesis
      using "1.IH"[OF _ refl _ refl refl refl refl len pos] go
      unfolding nth j by simp
  qed
qed

lemma previewTable_nth:
  "k < 20 \<Longrightarrow> previewTable (Some buf) rateCtx depth ! k = tableRow buf rateCtx depth k"
  by (simp add: previewTable_def)

text \<open>
  Where the two index computations meet, the table and the canvas agree: if the \<open>k\<close>-th
  multiple of the canvas stride has floor \<open>k * tableSkip\<close>, row \<open>k\<close> of the table has the
  sample index and original amplitude of the \<open>k\<close>-th point of the sampling layer, its time
  is that index divided by the native rate, and with \<open>showQuantization\<close> on its quantized
  amplitude is the point's.
\<close>

lemma table_row_agrees_with_sampling_point:
  assumes "audioBuffer p = Some buf" and "k < 20" and "k < length (samplingPoints p buf)"
    and "\<lfloor>real k * skip (sampleRate buf) (sampleRateCtx p)\<rfloor>
         = int k * tableSkip (sampleRate buf) (sampleRateCtx p)"
  shows "\<exists>row. previewTable (audioBuffer p) (sampleRateCtx p) (bitDepth p) ! k = Some row
          \<and> row_idx row = int (pt_idx (samplingPoints p buf ! k))
          \<and> row_time row = real (pt_idx (samplingPoints p buf ! k)) / sampleRate buf
          \<and> row_val row = pt_originalVal (samplingPoints p buf ! k)
          \<and> (showQuantization p \<longrightarrow> row_quantized row = pt_finalVal (samplingPoints p buf ! k))"
proof -
  let ?data = "channelData0 buf"
  let ?w = "windowSize (length ?data) (zoom p)"
  let ?sw = "width p / real_of_int ?w"
  let ?pts = "samplingLoop p ?data (sampleRate buf) ?w ?sw 0"
  let ?t = "tableSkip (sampleRate buf) (sampleRateCtx p)"
  have pts: "samplingPoints p buf = ?pts" by (simp add: samplingPoints_def Let_def)
  have len: "k < length ?pts" using assms(3) unfolding pts .
  have t: "1 \<le> ?t" by (simp add: tableSkip_def)
  have nonneg: "0 \<le> int k * ?t" using t by simp
  note n = samplingLoop_nth[OF len order_refl, unfolded Let_def add_0 assms(4)]
  have inb: "int k * ?t < int (length ?data)" using n by simp
  have idx: "int (pt_idx (?pts ! k)) = int k * ?t" using n nonneg by simp
  have row: "tableRow buf (sampleRateCtx p) (bitDepth p) k
      = Some \<lparr>row_i = k, row_idx = int k * ?t,
               row_time = real_of_int (int k * ?t) / sampleRate buf,
               row_val = ?data ! nat (int k * ?t),
               row_quantized = quantizeValue (?data ! nat (int k * ?t)) (bitDepth p),
               row_binary = padStart (toString2 (Math_round
                   ((quantizeValue (?data ! nat (int k * ?t)) (bitDepth p) + 1) / 2
                    * (Math_pow2 (bitDepth p) - 1)))) (bitDepth p) (CHR ''0'')\<rparr>"
    using inb by (simp add: tableRow_def Let_def)
  have time: "real (pt_idx (?pts ! k)) = real_of_int (int k * ?t)"
    using idx by (metis of_int_of_nat_eq)
  have ov: "pt_originalVal (?pts ! k) = ?data ! nat (int k * ?t)" using n by simp
  have fv: "showQuantization p \<Longrightarrow>
            pt_finalVal (?pts ! k) = quantizeValue (?data ! nat (int k * ?t)) (bitDepth p)"
    using n by simp
  show ?thesis
    unfolding pts assms(1) previewTable_nth[OF assms(2)] row
    by (simp add: idx time ov fv)
qed

lemma defaultRun_points:
  "samplingPoints defaultRunProps defaultRunBuffer =
     [\<lparr>pt_i = 0, pt_idx = 0, pt_originalVal = 0, pt_finalVal = 1 / 15, pt_x = 0, pt_y = 560 / 3\<rparr>,
      \<lparr>pt_i = 441 / 50, pt_idx = 8, pt_originalVal = 1 / 4, pt_finalVal = 1 / 5, pt_x = 392, pt_y = 160\<rparr>,
      \<lparr>pt_i = 441 / 25, pt_idx = 17, pt_originalVal = 1 / 2, pt_finalVal = 7 / 15, pt_x = 784, pt_y = 320 / 3\<rparr>]"
  by (simp add: samplingPoints_def defaultRunProps_def defaultRunBuffer_def windowSize_def
        samplingLoop.simps skip_def quantizeValue_def Math_pow2_def Math_round_def ampToY_def Let_def)

lemma natToString2_4: "natToString2 4 = ''100''"
  by code_simp

lemma defaultRun_row2:
  "previewTable (Some defaultRunBuffer) 5000 4 ! 2 =
     Some \<lparr>row_i = 2, row_idx = 16, row_time = 16 / 44100, row_val = - 1 / 2,
            row_quantized = - 7 / 15, row_binary = ''0100''\<rparr>"
  by (simp add: previewTable_nth tableRow_def tableSkip_def defaultRunBuffer_def quantizeValue_def
        Math_pow2_def Math_round_def padStart_def toString2_def natToString2_4 Let_def)

text \<open>
  Claim C1 fails on the code with the controls as the application starts them
  (\<open>showQuantization\<close> on, 4 bits, 5000 Hz) on eighteen samples at 44100 Hz shown whole.
  The canvas steps by \<open>44100 / 5000 = 8.82\<close> and takes sample \<open>\<lfloor>17.64\<rfloor> = 17\<close> for its third
  point: original amplitude \<open>1 / 2\<close>, quantized \<open>7 / 15\<close>. The table steps by
  \<open>\<lfloor>8.82\<rfloor> = 8\<close> and takes sample 16 for its third row: original amplitude \<open>- 1 / 2\<close>,
  quantized \<open>- 7 / 15\<close>.
\<close>

theorem table_row_differs_from_sampling_point:
  "pt_idx (samplingPoints defaultRunProps defaultRunBuffer ! 2) = 17
   \<and> pt_originalVal (samplingPoints defaultRunProps defaultRunBuffer ! 2) = 1 / 2
   \<and> pt_finalVal (samplingPoints defaultRunProps defaultRunBuffer ! 2) = 7 / 15
   \<and> audioBuffer defaultRunProps = Some defaultRunBuffer
   \<and> map_option row_idx
         (previewTable (audioBuffer defaultRunProps) (sampleRateCtx defaultRunProps)
            (bitDepth defaultRunProps) ! 2) = Some 16
   \<and> map_option row_val
         (previewTable (audioBuffer defaultRunProps) (sampleRateCtx defaultRunProps)
            (bitDepth defaultRunProps) ! 2) = Some (- 1 / 2)
   \<and> map_option row_quantized
         (previewTable (audioBuffer defaultRunProps) (sampleRateCtx defaultRunProps)
            (bitDepth defaultRunProps) ! 2) = Some (- 7 / 15)"
proof -
  have p: "audioBuffer defaultRunProps = Some defaultRunBuffer"
    "sampleRateCtx defaultRunProps = 5000" "bitDepth defaultRunProps = 4"
    by (simp_all add: defaultRunProps_def)
  show ?thesis unfolding p defaultRun_points defaultRun_row2 by simp
qed

end
